theory Spec2Isabelle
  imports Main "HOL-Library.Word"
begin

section \<open>The web bundler: embedding of bundle_web_files.py and tools/web_bundler.py\<close>

text \<open>
  Both scripts walk the directory \<^verbatim>\<open>web\<close>, derive a C++ identifier from every relative
  path, and write the bytes of every file as a hexadecimal array literal, with an index of
  lookup functions. \<^verbatim>\<open>sanitize_var_name\<close> and \<^verbatim>\<open>get_mime_type\<close> are the same text in
  both scripts and are embedded once.

  A Python \<^verbatim>\<open>str\<close> is a sequence of code points. A \<^typ>\<open>char\<close> of the model is a code
  point below 256; \<^term>\<open>of_char c :: nat\<close> is its number. A Python \<^verbatim>\<open>bytes\<close> value is a
  list of 8-bit words.
\<close>

type_synonym byte = "8 word"

datatype error =
    IndexError    \<comment> \<open>\<^verbatim>\<open>name[0]\<close> on the empty string\<close>
  | IOError       \<comment> \<open>\<^verbatim>\<open>open(file_path, "rb")\<close> on a path that is not a readable file\<close>
  | ValueError    \<comment> \<open>\<^verbatim>\<open>os.path.relpath\<close> of the empty path\<close>

subsection \<open>sanitize_var_name\<close>

text \<open>
  The character class \<^verbatim>\<open>[a-zA-Z0-9]\<close> of the regular expression, in the order it is written.
\<close>

definition is_ascii_alnum :: "char \<Rightarrow> bool" where
  "is_ascii_alnum c =
     (let n = (of_char c :: nat) in
      (97 \<le> n \<and> n \<le> 122) \<or> (65 \<le> n \<and> n \<le> 90) \<or> (48 \<le> n \<and> n \<le> 57))"

text \<open>
  \<^verbatim>\<open>str.isdigit\<close> on one character. Below code point 256 Python answers True for the ten
  ASCII digits and for the superscripts two, three and one (178, 179 and 185).
\<close>

definition isdigit :: "char \<Rightarrow> bool" where
  "isdigit c =
     (let n = (of_char c :: nat) in
      (48 \<le> n \<and> n \<le> 57) \<or> n = 178 \<or> n = 179 \<or> n = 185)"

text \<open>
  \<^verbatim>\<open>re.sub(r'[^a-zA-Z0-9]', '_', name)\<close>: the pattern matches exactly one character, so
  every character outside the class is replaced on its own.
\<close>

definition re_sub_non_alnum :: "string \<Rightarrow> string" where
  "re_sub_non_alnum name = map (\<lambda>c. if is_ascii_alnum c then c else CHR ''_'') name"

text \<open>
  \<^verbatim>\<open>name[0]\<close> raises IndexError when the substituted string is empty; that is the
  \<^term>\<open>Inl IndexError\<close> branch.
\<close>

definition sanitize_var_name :: "string \<Rightarrow> error + string" where
  "sanitize_var_name name =
     (let name1 = re_sub_non_alnum name in
      case name1 of
        [] \<Rightarrow> Inl IndexError
      | c # _ \<Rightarrow> Inr (if isdigit c then CHR ''_'' # name1 else name1))"

subsection \<open>The symbolic name as the specification words it\<close>

definition spec_letters :: string where
  "spec_letters = ''abcdefghijklmnopqrstuvwxyzABCDEFGHIJKLMNOPQRSTUVWXYZ''"

definition spec_digits :: string where
  "spec_digits = ''0123456789''"

text \<open>
  Replace every character outside \<^verbatim>\<open>[A-Za-z0-9]\<close> with an underscore; if the first character
  of the result is a digit, prepend an underscore.
\<close>

definition spec_symbolic_name :: "string \<Rightarrow> string" where
  "spec_symbolic_name p =
     (let r = map (\<lambda>c. if c \<in> set (spec_letters @ spec_digits) then c else CHR ''_'') p
      in if r \<noteq> [] \<and> hd r \<in> set spec_digits then CHR ''_'' # r else r)"

text \<open>A full match of the regular expression \<^verbatim>\<open>[_A-Za-z][_A-Za-z0-9]*\<close>.\<close>

definition matches_identifier :: "string \<Rightarrow> bool" where
  "matches_identifier s =
     (case s of
        [] \<Rightarrow> False
      | c # cs \<Rightarrow>
          (c = CHR ''_'' \<or> c \<in> set spec_letters) \<and>
          list_all (\<lambda>d. d = CHR ''_'' \<or> d \<in> set spec_letters \<or> d \<in> set spec_digits) cs)"

subsection \<open>The byte array literal\<close>

text \<open>
  \<^verbatim>\<open>f"{byte:02x}"\<close> is Python's integer formatting: the number in lower-case hexadecimal,
  padded on the left with zeros to at least two characters. \<^verbatim>\<open>hex_str\<close> is the conversion
  without padding.
\<close>

definition hex_digits :: string where
  "hex_digits = ''0123456789abcdef''"

fun hex_str :: "nat \<Rightarrow> string" where
  "hex_str n =
     (if n < 16 then [hex_digits ! n]
      else hex_str (n div 16) @ [hex_digits ! (n mod 16)])"

declare hex_str.simps [simp del]

definition format_02x :: "byte \<Rightarrow> string" where
  "format_02x b = (let s = hex_str (unat b) in replicate (2 - length s) (CHR ''0'') @ s)"

text \<open>
  The loop of both scripts, with the index \<^verbatim>\<open>i\<close> of \<^verbatim>\<open>enumerate\<close> as an argument:
  \<^verbatim>\<open>
  for i, byte in enumerate(content):
      if i % 12 == 0:
          f.write("\n    ")
      f.write(f"0x{byte:02x}, ")
  \<close>
\<close>

fun write_bytes :: "nat \<Rightarrow> byte list \<Rightarrow> string" where
  "write_bytes i [] = []"
| "write_bytes i (byte # content) =
     (if i mod 12 = 0 then ''\<newline>    '' else []) @
     (''0x'' @ format_02x byte @ '', '') @
     write_bytes (Suc i) content"

subsection \<open>Reading a byte array literal back\<close>

text \<open>
  The reader of the round-trip law: it takes the text between the braces of a generated
  array, skips commas, blanks and line ends, and reads every element \<^verbatim>\<open>0x\<close> followed by
  two hexadecimal digits as one byte. Any other text is rejected with \<^term>\<open>None\<close>.
\<close>

definition hex_value :: "char \<Rightarrow> nat option" where
  "hex_value c =
     (let n = (of_char c :: nat) in
      if 48 \<le> n \<and> n \<le> 57 then Some (n - 48)
      else if 97 \<le> n \<and> n \<le> 102 then Some (n - 87)
      else if 65 \<le> n \<and> n \<le> 70 then Some (n - 55)
      else None)"

definition is_separator :: "char \<Rightarrow> bool" where
  "is_separator c = (c = CHR '','' \<or> c = CHR '' '' \<or> c = CHR ''\<newline>'')"

fun decode_elements :: "string \<Rightarrow> byte list option" where
  "decode_elements (c0 # cx # h # l # rest) =
     (if c0 = CHR ''0'' \<and> cx = CHR ''x'' then
        (case (hex_value h, hex_value l) of
           (Some a, Some b) \<Rightarrow> map_option ((#) (of_nat (16 * a + b))) (decode_elements rest)
         | _ \<Rightarrow> None)
      else if is_separator c0 then decode_elements (cx # h # l # rest)
      else None)"
| "decode_elements (c # cs) = (if is_separator c then decode_elements cs else None)"
| "decode_elements [] = Some []"

text \<open>
  The reader applied to a generated declaration: the elements are the text between the
  first opening brace and the next closing brace.
\<close>

definition array_body :: "string \<Rightarrow> string" where
  "array_body text =
     takeWhile (\<lambda>c. c \<noteq> CHR ''}'') (tl (dropWhile (\<lambda>c. c \<noteq> CHR ''{'') text))"

definition decode_byte_array :: "string \<Rightarrow> byte list option" where
  "decode_byte_array text = decode_elements (array_body text)"

subsection \<open>get_mime_type\<close>

text \<open>
  \<^verbatim>\<open>str.rfind\<close> with a one-character argument: the highest index at which the
  character occurs, \<^verbatim>\<open>-1\<close> when it does not occur.
\<close>

definition rfind :: "string \<Rightarrow> char \<Rightarrow> int" where
  "rfind p c =
     (if c \<in> set p
      then int (length p - 1 - length (takeWhile (\<lambda>x. x \<noteq> c) (rev p)))
      else - 1)"

text \<open>
  \<^verbatim>\<open>os.path.splitext\<close> is the library's \<^verbatim>\<open>genericpath._splitext(p, '/', None, '.')\<close>:
  \<^verbatim>\<open>
  sepIndex = p.rfind(sep)
  dotIndex = p.rfind(extsep)
  if dotIndex > sepIndex:
      # skip all leading dots
      filenameIndex = sepIndex + 1
      while filenameIndex < dotIndex:
          if p[filenameIndex:filenameIndex+1] != extsep:
              return p[:dotIndex], p[dotIndex:]
          filenameIndex += 1
  return p, p[:0]
  \<close>
  Inside the branch both indices are non-negative, so the loop runs on naturals.
\<close>

function splitext_loop :: "string \<Rightarrow> nat \<Rightarrow> nat \<Rightarrow> string \<times> string" where
  "splitext_loop p filenameIndex dotIndex =
     (if filenameIndex < dotIndex then
        (if take 1 (drop filenameIndex p) \<noteq> ''.'' then (take dotIndex p, drop dotIndex p)
         else splitext_loop p (filenameIndex + 1) dotIndex)
      else (p, []))"
  by pat_completeness auto
termination
  by (relation "measure (\<lambda>(p, filenameIndex, dotIndex). dotIndex - filenameIndex)") auto

declare splitext_loop.simps [simp del]

definition splitext :: "string \<Rightarrow> string \<times> string" where
  "splitext p =
     (let sepIndex = rfind p (CHR ''/'');
          dotIndex = rfind p (CHR ''.'')
      in if dotIndex > sepIndex
         then splitext_loop p (nat (sepIndex + 1)) (nat dotIndex)
         else (p, []))"

text \<open>
  \<^verbatim>\<open>str.lower\<close>: below code point 256 Python maps A to Z, and the capital letters
  192 to 222 except the multiplication sign 215, to the code point 32 above; every other
  character stays.
\<close>

definition lower_char :: "char \<Rightarrow> char" where
  "lower_char c =
     (let n = (of_char c :: nat) in
      if (65 \<le> n \<and> n \<le> 90) \<or> (192 \<le> n \<and> n \<le> 222 \<and> n \<noteq> 215)
      then char_of (n + 32) else c)"

definition lower :: "string \<Rightarrow> string" where
  "lower s = map lower_char s"

text \<open>The dictionary \<^verbatim>\<open>mime_types\<close>, in the order of the source, and \<^verbatim>\<open>dict.get\<close> with its default.\<close>

definition mime_types :: "(string \<times> string) list" where
  "mime_types =
     [(''.html'', ''text/html''),
      (''.css'', ''text/css''),
      (''.js'', ''application/javascript''),
      (''.json'', ''application/json''),
      (''.png'', ''image/png''),
      (''.jpg'', ''image/jpeg''),
      (''.jpeg'', ''image/jpeg''),
      (''.gif'', ''image/gif''),
      (''.svg'', ''image/svg+xml''),
      (''.ico'', ''image/x-icon'')]"

definition get_mime_type :: "string \<Rightarrow> string" where
  "get_mime_type file_path =
     (let ext = lower (snd (splitext file_path)) in
      case map_of mime_types ext of
        Some m \<Rightarrow> m
      | None \<Rightarrow> ''application/octet-stream'')"


subsection \<open>The MIME table as the specification words it\<close>

text \<open>The fixed table, keyed by the extension without its dot, and the fallback.\<close>

definition spec_mime_table :: "(string \<times> string) list" where
  "spec_mime_table =
     [(''html'', ''text/html''),
      (''css'', ''text/css''),
      (''js'', ''application/javascript''),
      (''json'', ''application/json''),
      (''png'', ''image/png''),
      (''jpg'', ''image/jpeg''),
      (''jpeg'', ''image/jpeg''),
      (''gif'', ''image/gif''),
      (''svg'', ''image/svg+xml''),
      (''ico'', ''image/x-icon'')]"

definition spec_resolve_mime :: "string \<Rightarrow> string" where
  "spec_resolve_mime ext =
     (case map_of spec_mime_table ext of
        Some m \<Rightarrow> m
      | None \<Rightarrow> ''application/octet-stream'')"

subsection \<open>Paths: os.path.join and os.path.relpath\<close>

definition startswith :: "string \<Rightarrow> string \<Rightarrow> bool" where
  "startswith s pre = (take (length pre) s = pre)"

definition endswith :: "string \<Rightarrow> string \<Rightarrow> bool" where
  "endswith s suf = (length suf \<le> length s \<and> drop (length s - length suf) s = suf)"

text \<open>
  \<^verbatim>\<open>posixpath.join(a, b)\<close>: an absolute \<^verbatim>\<open>b\<close> replaces \<^verbatim>\<open>a\<close>; otherwise \<^verbatim>\<open>b\<close> is
  appended, after a slash unless \<^verbatim>\<open>a\<close> is empty or ends with one.
\<close>

definition os_path_join :: "string \<Rightarrow> string \<Rightarrow> string" where
  "os_path_join a b =
     (if startswith b ''/'' then b
      else if a = [] \<or> endswith a ''/'' then a @ b
      else a @ ''/'' @ b)"

text \<open>\<^verbatim>\<open>str.split(sep)\<close> with a one-character separator; empty pieces are kept.\<close>

fun split :: "char \<Rightarrow> string \<Rightarrow> string list" where
  "split sep [] = [[]]"
| "split sep (c # cs) =
     (if c = sep then [] # split sep cs
      else (c # hd (split sep cs)) # tl (split sep cs))"

text \<open>
  The loop of \<^verbatim>\<open>posixpath.normpath\<close> on an absolute path: empty components and
  \<^verbatim>\<open>.\<close> are dropped, \<^verbatim>\<open>..\<close> removes the component before it and is dropped at the root.
\<close>

fun normpath_comps :: "string list \<Rightarrow> string list \<Rightarrow> string list" where
  "normpath_comps new_comps [] = new_comps"
| "normpath_comps new_comps (x # comps) =
     (if x = [] \<or> x = ''.'' then normpath_comps new_comps comps
      else if x \<noteq> ''..'' then normpath_comps (new_comps @ [x]) comps
      else normpath_comps (butlast new_comps) comps)"

text \<open>
  \<^verbatim>\<open>[x for x in abspath(p).split(sep) if x]\<close>, the list \<^verbatim>\<open>relpath\<close> works on.
  \<^verbatim>\<open>abspath\<close> joins a relative path to \<^verbatim>\<open>os.getcwd()\<close> and normalises; the current
  directory \<^verbatim>\<open>cwd\<close> is given as the list of its components.
\<close>

definition abspath_list :: "string list \<Rightarrow> string \<Rightarrow> string list" where
  "abspath_list cwd p =
     (if startswith p ''/'' then normpath_comps [] (split (CHR ''/'') p)
      else normpath_comps [] (cwd @ split (CHR ''/'') p))"

text \<open>\<^verbatim>\<open>os.path.commonprefix\<close> of two lists: their longest common prefix.\<close>

fun commonprefix :: "'a list \<Rightarrow> 'a list \<Rightarrow> 'a list" where
  "commonprefix (x # xs) (y # ys) = (if x = y then x # commonprefix xs ys else [])"
| "commonprefix _ _ = []"

text \<open>
  \<^verbatim>\<open>posixpath.relpath(path, start)\<close>:
  \<^verbatim>\<open>
  if not path: raise ValueError("no path specified")
  start_list = [x for x in abspath(start).split(sep) if x]
  path_list = [x for x in abspath(path).split(sep) if x]
  i = len(commonprefix([start_list, path_list]))
  rel_list = [pardir] * (len(start_list)-i) + path_list[i:]
  if not rel_list: return curdir
  return join(*rel_list)
  \<close>
\<close>

definition os_path_relpath :: "string list \<Rightarrow> string \<Rightarrow> string \<Rightarrow> error + string" where
  "os_path_relpath cwd path start =
     (if path = [] then Inl ValueError
      else
        let start_list = abspath_list cwd start;
            path_list = abspath_list cwd path;
            i = length (commonprefix start_list path_list);
            rel_list = replicate (length start_list - i) ''..'' @ drop i path_list
        in case rel_list of
             [] \<Rightarrow> Inr ''.''
           | r # rs \<Rightarrow> Inr (foldl os_path_join r rs))"

subsection \<open>The file system\<close>

text \<open>
  A directory is the list of its entries in the order \<^verbatim>\<open>os.scandir\<close> returns them; the
  file system of a run is the listing of the current directory. Symbolic links and
  special files are not modelled.
\<close>

datatype entry = File string "byte list" | Dir string "entry list"

fun entry_name :: "entry \<Rightarrow> string" where
  "entry_name (File n _) = n"
| "entry_name (Dir n _) = n"

definition find_entry :: "entry list \<Rightarrow> string \<Rightarrow> entry option" where
  "find_entry es n = find (\<lambda>e. entry_name e = n) es"

text \<open>
  The names a path walks through, relative to the current directory: as the operating
  system does, empty components and \<^verbatim>\<open>.\<close> are skipped. A component \<^verbatim>\<open>..\<close> is not
  resolved (no entry has that name; the scripts never build such a path from a walk).
\<close>

definition path_names :: "string \<Rightarrow> string list" where
  "path_names p = filter (\<lambda>x. x \<noteq> [] \<and> x \<noteq> ''.'') (split (CHR ''/'') p)"

fun resolve_dir :: "entry list \<Rightarrow> string list \<Rightarrow> entry list option" where
  "resolve_dir es [] = Some es"
| "resolve_dir es (n # ns) =
     (case find_entry es n of
        Some (Dir _ sub) \<Rightarrow> resolve_dir sub ns
      | _ \<Rightarrow> None)"

fun resolve_file :: "entry list \<Rightarrow> string list \<Rightarrow> byte list option" where
  "resolve_file es [] = None"
| "resolve_file es [n] =
     (case find_entry es n of
        Some (File _ content) \<Rightarrow> Some content
      | _ \<Rightarrow> None)"
| "resolve_file es (n # ns) =
     (case find_entry es n of
        Some (Dir _ sub) \<Rightarrow> resolve_file sub ns
      | _ \<Rightarrow> None)"

text \<open>\<^verbatim>\<open>open(file_path, "rb").read()\<close>: the content, or the error the run stops with.\<close>

definition read_binary :: "entry list \<Rightarrow> string \<Rightarrow> error + byte list" where
  "read_binary fs file_path =
     (case resolve_file fs (path_names file_path) of
        None \<Rightarrow> Inl IOError
      | Some content \<Rightarrow> Inr content)"

text \<open>
  \<^verbatim>\<open>os.walk(top)\<close>, top down: the triple of a directory (its path, the names of its
  subdirectories, the names of its other entries), then the walk of every subdirectory
  \<^verbatim>\<open>os.path.join(top, dirname)\<close> in order. No directory is pruned: neither script
  changes the list of subdirectories. A \<^verbatim>\<open>top\<close> that is not a directory yields nothing
  (\<^verbatim>\<open>os.walk\<close> ignores the error of \<^verbatim>\<open>scandir\<close>).
\<close>

fun dir_names :: "entry list \<Rightarrow> string list" where
  "dir_names [] = []"
| "dir_names (Dir n _ # es) = n # dir_names es"
| "dir_names (File _ _ # es) = dir_names es"

fun file_names :: "entry list \<Rightarrow> string list" where
  "file_names [] = []"
| "file_names (File n _ # es) = n # file_names es"
| "file_names (Dir _ _ # es) = file_names es"

fun walk :: "string \<Rightarrow> entry list \<Rightarrow> (string \<times> string list \<times> string list) list"
  and walk_subdirs :: "string \<Rightarrow> entry list \<Rightarrow> (string \<times> string list \<times> string list) list"
where
  "walk top_path es = (top_path, dir_names es, file_names es) # walk_subdirs top_path es"
| "walk_subdirs top_path [] = []"
| "walk_subdirs top_path (File _ _ # es) = walk_subdirs top_path es"
| "walk_subdirs top_path (Dir n sub # es) = walk (os_path_join top_path n) sub @ walk_subdirs top_path es"

definition os_walk :: "entry list \<Rightarrow> string \<Rightarrow> (string \<times> string list \<times> string list) list" where
  "os_walk fs top_path =
     (if top_path = [] then []
      else case resolve_dir fs (path_names top_path) of
             None \<Rightarrow> []
           | Some es \<Rightarrow> walk top_path es)"

subsection \<open>Exceptions\<close>

text \<open>
  An exception ends the run: \<^verbatim>\<open>bind_error\<close> passes the first error on, and
  \<^verbatim>\<open>traverse\<close> is a \<^verbatim>\<open>for\<close> loop whose body may raise.
\<close>

definition bind_error :: "error + 'a \<Rightarrow> ('a \<Rightarrow> error + 'b) \<Rightarrow> error + 'b" where
  "bind_error m f = (case m of Inl e \<Rightarrow> Inl e | Inr x \<Rightarrow> f x)"

fun traverse :: "('a \<Rightarrow> error + 'b) \<Rightarrow> 'a list \<Rightarrow> error + 'b list" where
  "traverse f [] = Inr []"
| "traverse f (x # xs) =
     bind_error (f x) (\<lambda>y. bind_error (traverse f xs) (\<lambda>ys. Inr (y # ys)))"

subsection \<open>The generated text\<close>

text \<open>
  Both scripts write C++ text piece by piece. The model keeps every piece that declares
  something or fills a map as an item of its own and renders the items to the text the
  script writes; everything else is verbatim text. The generated header is the
  concatenation of the rendered items.
\<close>

datatype cpp_expr =
    StrLit string    \<comment> \<open>a string literal, written between double quotes\<close>
  | Ident string     \<comment> \<open>the name of a variable\<close>
  | AddrOf string    \<comment> \<open>the address of a variable, written with an ampersand\<close>

datatype item =
    Verbatim string
  | ByteArray string "byte list"
  | StringConst string string
  | Include string
  | MapInsert string cpp_expr cpp_expr

fun render_expr :: "cpp_expr \<Rightarrow> string" where
  \<open>render_expr (StrLit s) = ''"'' @ s @ ''"''\<close>
| \<open>render_expr (Ident x) = x\<close>
| \<open>render_expr (AddrOf x) = ''&'' @ x\<close>

fun render :: "item \<Rightarrow> string" where
  \<open>render (Verbatim s) = s\<close>
| \<open>render (ByteArray var_name content) =
     ''inline const std::vector<unsigned char> '' @ var_name @ '' = {\<newline>'' @
     write_bytes 0 content @
     ''\<newline>};\<newline>''\<close>
| \<open>render (StringConst var_name s) =
     ''inline const std::string '' @ var_name @ '' = "'' @ s @ ''";\<newline>''\<close>
| \<open>render (Include header) = ''#include "'' @ header @ ''"\<newline>''\<close>
| \<open>render (MapInsert m k v) =
     ''    '' @ m @ ''['' @ render_expr k @ ''] = '' @ render_expr v @ '';\<newline>''\<close>

definition render_all :: "item list \<Rightarrow> string" where
  "render_all items = concat (map render items)"

text \<open>bundle_web_files.py, lines 54 to 66: the text written before the first asset.\<close>

definition combined_prologue :: string where
  \<open>combined_prologue =
     ''// Auto-generated file - DO NOT EDIT\<newline>'' @
     ''// Index of all bundled web files\<newline>'' @
     ''\<newline>'' @
     ''#pragma once\<newline>'' @
     ''\<newline>'' @
     ''#include <string>\<newline>'' @
     ''#include <unordered_map>\<newline>'' @
     ''#include <vector>\<newline>'' @
     ''\<newline>'' @
     ''namespace dht_hunter {\<newline>'' @
     ''namespace web_bundle {\<newline>'' @
     ''\<newline>''\<close>

text \<open>bundle_web_files.py, lines 91 to 94: the head of \<^verbatim>\<open>get_bundled_files\<close>.\<close>

definition files_function_head :: string where
  \<open>files_function_head =
     ''// Get all bundled files\<newline>'' @
     ''inline std::unordered_map<std::string, const std::vector<unsigned char>*> get_bundled_files() {\<newline>'' @
     ''    std::unordered_map<std::string, const std::vector<unsigned char>*> files;\<newline>''\<close>

text \<open>bundle_web_files.py, lines 100 to 106, and web_bundler.py, lines 130 to 136 (the same text).\<close>

definition paths_function_head :: string where
  \<open>paths_function_head =
     ''    return files;\<newline>'' @
     ''}\<newline>'' @
     ''\<newline>'' @
     ''// Get all bundled file paths\<newline>'' @
     ''inline std::unordered_map<std::string, std::string> get_bundled_file_paths() {\<newline>'' @
     ''    std::unordered_map<std::string, std::string> paths;\<newline>''\<close>

text \<open>bundle_web_files.py, lines 112 to 118, and web_bundler.py, lines 142 to 148 (the same text).\<close>

definition mime_types_function_head :: string where
  \<open>mime_types_function_head =
     ''    return paths;\<newline>'' @
     ''}\<newline>'' @
     ''\<newline>'' @
     ''// Get all bundled file MIME types\<newline>'' @
     ''inline std::unordered_map<std::string, std::string> get_bundled_file_mime_types() {\<newline>'' @
     ''    std::unordered_map<std::string, std::string> mime_types;\<newline>''\<close>

text \<open>bundle_web_files.py, lines 124 to 149: the two point lookups and the closing of the namespaces.\<close>

definition combined_epilogue :: string where
  \<open>combined_epilogue =
     ''    return mime_types;\<newline>'' @
     ''}\<newline>'' @
     ''\<newline>'' @
     ''// Get a bundled file by path\<newline>'' @
     ''inline const std::vector<unsigned char>* get_bundled_file(const std::string& path) {\<newline>'' @
     ''    auto files = get_bundled_files();\<newline>'' @
     ''    auto it = files.find(path);\<newline>'' @
     ''    if (it != files.end()) {\<newline>'' @
     ''        return it->second;\<newline>'' @
     ''    }\<newline>'' @
     ''    return nullptr;\<newline>'' @
     ''}\<newline>'' @
     ''\<newline>'' @
     ''// Get a bundled file MIME type by path\<newline>'' @
     ''inline std::string get_bundled_file_mime_type(const std::string& path) {\<newline>'' @
     ''    auto mime_types = get_bundled_file_mime_types();\<newline>'' @
     ''    auto it = mime_types.find(path);\<newline>'' @
     ''    if (it != mime_types.end()) {\<newline>'' @
     ''        return it->second;\<newline>'' @
     ''    }\<newline>'' @
     ''    return "application/octet-stream";\<newline>'' @
     ''}\<newline>'' @
     ''\<newline>'' @
     ''} // namespace web_bundle\<newline>'' @
     ''} // namespace dht_hunter\<newline>''\<close>

text \<open>web_bundler.py, lines 102 to 111: the text of the index before the includes.\<close>

definition index_prologue :: string where
  \<open>index_prologue =
     ''// Auto-generated file - DO NOT EDIT\<newline>'' @
     ''// Index of all bundled web files\<newline>'' @
     ''\<newline>'' @
     ''#pragma once\<newline>'' @
     ''\<newline>'' @
     ''#include <string>\<newline>'' @
     ''#include <unordered_map>\<newline>'' @
     ''#include <vector>\<newline>'' @
     ''\<newline>''\<close>

text \<open>web_bundler.py, lines 154 to 179. This literal is not an f-string: its doubled braces and the text \<^verbatim>\<open>{namespace}\<close> are written as they stand.\<close>

definition index_epilogue :: string where
  \<open>index_epilogue =
     ''    return mime_types;\<newline>'' @
     ''}\<newline>'' @
     ''\<newline>'' @
     ''// Get a bundled file by path\<newline>'' @
     ''inline const std::vector<unsigned char>* get_bundled_file(const std::string& path) {\<newline>'' @
     ''    auto files = get_bundled_files();\<newline>'' @
     ''    auto it = files.find(path);\<newline>'' @
     ''    if (it != files.end()) {\<newline>'' @
     ''        return it->second;\<newline>'' @
     ''    }\<newline>'' @
     ''    return nullptr;\<newline>'' @
     ''}\<newline>'' @
     ''\<newline>'' @
     ''// Get a bundled file MIME type by path\<newline>'' @
     ''inline std::string get_bundled_file_mime_type(const std::string& path) {\<newline>'' @
     ''    auto mime_types = get_bundled_file_mime_types();\<newline>'' @
     ''    auto it = mime_types.find(path);\<newline>'' @
     ''    if (it != mime_types.end()) {\<newline>'' @
     ''        return it->second;\<newline>'' @
     ''    }\<newline>'' @
     ''    return "application/octet-stream";\<newline>'' @
     ''}\<newline>'' @
     ''\<newline>'' @
     ''}}  // namespace web_bundle\<newline>'' @
     ''}}  // namespace {namespace}\<newline>''\<close>

subsection \<open>bundle_web_files.py: one header for all files\<close>

text \<open>
  Lines 43 to 50, the files of the walk of \<^verbatim>\<open>web\<close> whose name does not start with a dot:
  \<^verbatim>\<open>
  for root, _, files in os.walk("web"):
      for file in files:
          if file.startswith('.'):  # Skip hidden files
              continue
          file_path = os.path.join(root, file)
          rel_path = os.path.relpath(file_path, "web")
          web_files.append((file_path, rel_path))
  \<close>
\<close>

definition walked_files :: "(string \<times> string list \<times> string list) list \<Rightarrow> (string \<times> string) list" where
  "walked_files triples =
     concat (map (\<lambda>(root, _, files).
        map (Pair root) (filter (\<lambda>file. \<not> startswith file ''.'') files)) triples)"

definition web_file :: "string list \<Rightarrow> string \<times> string \<Rightarrow> error + string \<times> string" where
  "web_file cwd = (\<lambda>(root, file).
     let file_path = os_path_join root file in
     bind_error (os_path_relpath cwd file_path ''web'') (\<lambda>rel_path.
     Inr (file_path, rel_path)))"

definition collect_web_files :: "string list \<Rightarrow> entry list \<Rightarrow> error + (string \<times> string) list" where
  "collect_web_files cwd fs = traverse (web_file cwd) (walked_files (os_walk fs ''web''))"

text \<open>Lines 69 to 88, the block of one file.\<close>

definition asset_block :: "entry list \<Rightarrow> string \<times> string \<Rightarrow> error + item list" where
  "asset_block fs = (\<lambda>(file_path, rel_path).
     bind_error (sanitize_var_name rel_path) (\<lambda>var_name.
     let mime_type = get_mime_type file_path in
     bind_error (read_binary fs file_path) (\<lambda>content.
     Inr [Verbatim (''// Bundled file: '' @ rel_path @ ''\<newline>''),
          ByteArray var_name content,
          StringConst (var_name @ ''_path'') rel_path,
          StringConst (var_name @ ''_mime'') mime_type,
          Verbatim ''\<newline>''])))"

text \<open>Lines 96 to 98, 108 to 110 and 120 to 122, the three loops that fill the maps.\<close>

definition files_entry :: "string \<times> string \<Rightarrow> error + item" where
  "files_entry = (\<lambda>(_, rel_path).
     bind_error (sanitize_var_name rel_path) (\<lambda>var_name.
     Inr (MapInsert ''files'' (StrLit rel_path) (AddrOf var_name))))"

definition paths_entry :: "string \<times> string \<Rightarrow> error + item" where
  "paths_entry = (\<lambda>(_, rel_path).
     bind_error (sanitize_var_name rel_path) (\<lambda>var_name.
     Inr (MapInsert ''paths'' (StrLit rel_path) (Ident (var_name @ ''_path'')))))"

definition mime_types_entry :: "string \<times> string \<Rightarrow> error + item" where
  "mime_types_entry = (\<lambda>(_, rel_path).
     bind_error (sanitize_var_name rel_path) (\<lambda>var_name.
     Inr (MapInsert ''mime_types'' (StrLit rel_path) (Ident (var_name @ ''_mime'')))))"

text \<open>
  \<^verbatim>\<open>main\<close> of bundle_web_files.py: the items of \<^verbatim>\<open>web_bundle.hpp\<close>, or the exception
  the run ends with. Creating the output directory and printing the summary line are
  left out.
\<close>

definition bundle_web_files_main :: "string list \<Rightarrow> entry list \<Rightarrow> error + item list" where
  "bundle_web_files_main cwd fs =
     bind_error (collect_web_files cwd fs) (\<lambda>web_files.
     bind_error (traverse (asset_block fs) web_files) (\<lambda>blocks.
     bind_error (traverse files_entry web_files) (\<lambda>files.
     bind_error (traverse paths_entry web_files) (\<lambda>paths.
     bind_error (traverse mime_types_entry web_files) (\<lambda>mimes.
     Inr ([Verbatim combined_prologue] @ concat blocks @
          [Verbatim files_function_head] @ files @
          [Verbatim paths_function_head] @ paths @
          [Verbatim mime_types_function_head] @ mimes @
          [Verbatim combined_epilogue]))))))"

definition web_bundle_hpp :: "string list \<Rightarrow> entry list \<Rightarrow> error + string" where
  "web_bundle_hpp cwd fs = bind_error (bundle_web_files_main cwd fs) (\<lambda>items. Inr (render_all items))"

subsection \<open>tools/web_bundler.py: one header for each file and an index\<close>

record args =
  web_dir :: string
  output_dir :: string
  namespace :: string

definition default_args :: args where
  "default_args =
     \<lparr>web_dir = ''web'', output_dir = ''include/dht_hunter/web/bundle'', namespace = ''dht_hunter''\<rparr>"

text \<open>
  \<^verbatim>\<open>process_file\<close>: the header of one file, the path it is written to, and the pair
  \<^verbatim>\<open>(rel_path, var_name)\<close> it returns. The relative path is taken from \<^verbatim>\<open>'web'\<close>
  whatever \<^verbatim>\<open>--web-dir\<close> is.
\<close>

definition process_file ::
  "string list \<Rightarrow> entry list \<Rightarrow> string \<Rightarrow> string \<Rightarrow> string \<Rightarrow>
   error + ((string \<times> item list) \<times> (string \<times> string))" where
  "process_file cwd fs output_dir_arg namespace_arg file_path =
     bind_error (read_binary fs file_path) (\<lambda>content.
     bind_error (os_path_relpath cwd file_path ''web'') (\<lambda>rel_path.
     bind_error (sanitize_var_name rel_path) (\<lambda>var_name.
     let header_content =
           [Verbatim (''// Auto-generated file - DO NOT EDIT\<newline>'' @
                      ''// Generated from '' @ rel_path @ ''\<newline>'' @
                      ''\<newline>'' @
                      ''#pragma once\<newline>'' @
                      ''\<newline>'' @
                      ''#include <string>\<newline>'' @
                      ''#include <vector>\<newline>'' @
                      ''\<newline>'' @
                      ''namespace '' @ namespace_arg @ '' {\<newline>'' @
                      ''namespace web_bundle {\<newline>'' @
                      ''\<newline>'' @
                      ''// Content of '' @ rel_path @ ''\<newline>''),
            ByteArray var_name content,
            Verbatim (''\<newline>'' @ ''// File path\<newline>''),
            StringConst (var_name @ ''_path'') rel_path,
            Verbatim (''\<newline>'' @ ''// MIME type\<newline>''),
            StringConst (var_name @ ''_mime'') (get_mime_type file_path),
            Verbatim (''\<newline>'' @
                      ''} // namespace web_bundle\<newline>'' @
                      ''} // namespace '' @ namespace_arg @ ''\<newline>'')];
         output_path = os_path_join output_dir_arg (var_name @ ''.hpp'')
     in Inr ((output_path, header_content), (rel_path, var_name)))))"

text \<open>\<^verbatim>\<open>generate_index_file\<close>: the items of the index and the path it is written to.\<close>

definition generate_index_file ::
  "(string \<times> string) list \<Rightarrow> string \<Rightarrow> string \<Rightarrow> string \<times> item list" where
  "generate_index_file files output_dir_arg namespace_arg =
     (os_path_join output_dir_arg ''web_bundle.hpp'',
      [Verbatim index_prologue] @
      map (\<lambda>(_, var_name). Include (var_name @ ''.hpp'')) files @
      [Verbatim (''\<newline>'' @
                 ''namespace '' @ namespace_arg @ '' {\<newline>'' @
                 ''namespace web_bundle {\<newline>'' @
                 ''\<newline>'' @
                 files_function_head)] @
      map (\<lambda>(_, var_name).
        MapInsert ''files'' (StrLit (var_name @ ''_path'')) (AddrOf var_name)) files @
      [Verbatim paths_function_head] @
      map (\<lambda>(rel_path, var_name).
        MapInsert ''paths'' (StrLit rel_path) (Ident (var_name @ ''_path''))) files @
      [Verbatim mime_types_function_head] @
      map (\<lambda>(_, var_name).
        MapInsert ''mime_types'' (Ident (var_name @ ''_path'')) (Ident (var_name @ ''_mime''))) files @
      [Verbatim index_epilogue])"

text \<open>
  \<^verbatim>\<open>main\<close> of web_bundler.py: the files it writes, in the order it writes them (a later
  write to the same path replaces the earlier one), or the exception the run ends with.
\<close>

definition web_bundler_main ::
  "args \<Rightarrow> string list \<Rightarrow> entry list \<Rightarrow> error + (string \<times> item list) list" where
  "web_bundler_main a cwd fs =
     (let web_files = map (\<lambda>(root, file). os_path_join root file)
                          (walked_files (os_walk fs (web_dir a)))
      in bind_error
           (traverse (process_file cwd fs (output_dir a) (namespace a)) web_files)
           (\<lambda>processed.
              Inr (map fst processed @
                   [generate_index_file (map snd processed) (output_dir a) (namespace a)])))"

subsection \<open>What the generated header exposes\<close>

text \<open>
  The meaning of the generated C++: every declaration binds its identifier to a value;
  \<^verbatim>\<open>get_bundled_files\<close>, \<^verbatim>\<open>get_bundled_file_paths\<close> and
  \<^verbatim>\<open>get_bundled_file_mime_types\<close> start from an empty map and run their assignments
  \<^verbatim>\<open>m[key] = value\<close> in order, an assignment to a key that is present replacing its
  value. A pointer to a byte array is represented by the identifier it points to. A map
  is a list of pairs with distinct keys; \<^term>\<open>None\<close> stands for a header that uses an
  identifier it has not declared.
\<close>

datatype cpp_value = Bytes "byte list" | Str string

fun assign :: "'k \<Rightarrow> 'v \<Rightarrow> ('k \<times> 'v) list \<Rightarrow> ('k \<times> 'v) list" where
  "assign k v [] = [(k, v)]"
| "assign k v ((k', v') # m) = (if k = k' then (k, v) # m else (k', v') # assign k v m)"

fun declarations :: "item list \<Rightarrow> (string \<times> cpp_value) list \<Rightarrow> (string \<times> cpp_value) list" where
  "declarations [] env = env"
| "declarations (ByteArray x content # items) env = declarations items (assign x (Bytes content) env)"
| "declarations (StringConst x s # items) env = declarations items (assign x (Str s) env)"
| "declarations (_ # items) env = declarations items env"

fun eval_string :: "(string \<times> cpp_value) list \<Rightarrow> cpp_expr \<Rightarrow> string option" where
  "eval_string env (StrLit s) = Some s"
| "eval_string env (Ident x) = (case map_of env x of Some (Str s) \<Rightarrow> Some s | _ \<Rightarrow> None)"
| "eval_string env (AddrOf x) = None"

fun eval_pointer :: "(string \<times> cpp_value) list \<Rightarrow> cpp_expr \<Rightarrow> string option" where
  "eval_pointer env (AddrOf x) = (case map_of env x of Some (Bytes _) \<Rightarrow> Some x | _ \<Rightarrow> None)"
| "eval_pointer env _ = None"

fun run_inserts ::
  "string \<Rightarrow> (cpp_expr \<Rightarrow> string option) \<Rightarrow> (cpp_expr \<Rightarrow> 'v option) \<Rightarrow> item list \<Rightarrow>
   (string \<times> 'v) list \<Rightarrow> (string \<times> 'v) list option" where
  "run_inserts m key val [] acc = Some acc"
| "run_inserts m key val (MapInsert m' k v # items) acc =
     (if m' = m then
        (case (key k, val v) of
           (Some k', Some v') \<Rightarrow> run_inserts m key val items (assign k' v' acc)
         | _ \<Rightarrow> None)
      else run_inserts m key val items acc)"
| "run_inserts m key val (_ # items) acc = run_inserts m key val items acc"

definition get_bundled_files :: "item list \<Rightarrow> (string \<times> string) list option" where
  "get_bundled_files unit =
     (let env = declarations unit [] in
      run_inserts ''files'' (eval_string env) (eval_pointer env) unit [])"

definition get_bundled_file_paths :: "item list \<Rightarrow> (string \<times> string) list option" where
  "get_bundled_file_paths unit =
     (let env = declarations unit [] in
      run_inserts ''paths'' (eval_string env) (eval_string env) unit [])"

definition get_bundled_file_mime_types :: "item list \<Rightarrow> (string \<times> string) list option" where
  "get_bundled_file_mime_types unit =
     (let env = declarations unit [] in
      run_inserts ''mime_types'' (eval_string env) (eval_string env) unit [])"

text \<open>
  The two point lookups of the epilogue: \<^verbatim>\<open>find\<close> in the map, the value when the key is
  there, \<^verbatim>\<open>nullptr\<close> (here the inner \<^term>\<open>None\<close>) or the fallback MIME type when not.
\<close>

definition get_bundled_file :: "item list \<Rightarrow> string \<Rightarrow> string option option" where
  "get_bundled_file unit path = map_option (\<lambda>files. map_of files path) (get_bundled_files unit)"

definition get_bundled_file_mime_type :: "item list \<Rightarrow> string \<Rightarrow> string option" where
  "get_bundled_file_mime_type unit path =
     map_option (\<lambda>mime_types.
        case map_of mime_types path of
          Some m \<Rightarrow> m
        | None \<Rightarrow> ''application/octet-stream'')
       (get_bundled_file_mime_types unit)"

text \<open>The bytes a pointer returned by \<^verbatim>\<open>get_bundled_file\<close> points to.\<close>

definition pointed_bytes :: "item list \<Rightarrow> string \<Rightarrow> byte list option" where
  "pointed_bytes unit x =
     (case map_of (declarations unit []) x of Some (Bytes content) \<Rightarrow> Some content | _ \<Rightarrow> None)"

text \<open>
  The translation unit of the index of web_bundler.py: every \<^verbatim>\<open>#include "x.hpp"\<close> is
  replaced by the items of that file of the output directory, once (every generated
  header starts with \<^verbatim>\<open>#pragma once\<close>).
\<close>

definition written_file :: "(string \<times> item list) list \<Rightarrow> string \<Rightarrow> item list option" where
  "written_file writes path = map_of (rev writes) path"

fun expand_includes ::
  "(string \<times> item list) list \<Rightarrow> string \<Rightarrow> string list \<Rightarrow> item list \<Rightarrow> item list" where
  "expand_includes writes dir seen [] = []"
| "expand_includes writes dir seen (Include header # items) =
     (let path = os_path_join dir header in
      if path \<in> set seen then expand_includes writes dir seen items
      else case written_file writes path of
             None \<Rightarrow> expand_includes writes dir (path # seen) items
           | Some body \<Rightarrow> body @ expand_includes writes dir (path # seen) items)"
| "expand_includes writes dir seen (it # items) = it # expand_includes writes dir seen items"

definition index_unit :: "args \<Rightarrow> (string \<times> item list) list \<Rightarrow> item list" where
  "index_unit a writes =
     (let path = os_path_join (output_dir a) ''web_bundle.hpp'' in
      case written_file writes path of
        None \<Rightarrow> []
      | Some items \<Rightarrow> expand_includes writes (output_dir a) [path] items)"

subsection \<open>The assets of a directory tree\<close>

text \<open>
  The names \<^verbatim>\<open>os.scandir\<close> can return: not empty, without a slash, and neither \<^verbatim>\<open>.\<close>
  nor \<^verbatim>\<open>..\<close>. In a directory no two entries have the same name.
\<close>

definition valid_name :: "string \<Rightarrow> bool" where
  "valid_name n = (n \<noteq> [] \<and> CHR ''/'' \<notin> set n \<and> n \<noteq> ''.'' \<and> n \<noteq> ''..'')"

fun valid_entry :: "entry \<Rightarrow> bool"
  and valid_entries :: "entry list \<Rightarrow> bool"
where
  "valid_entry (File n _) = valid_name n"
| "valid_entry (Dir n sub) = (valid_name n \<and> valid_entries sub)"
| "valid_entries [] = True"
| "valid_entries (e # es) =
     (valid_entry e \<and> entry_name e \<notin> set (map entry_name es) \<and> valid_entries es)"

text \<open>The listing of the directory \<^verbatim>\<open>web\<close> of the current directory; empty when there is none.\<close>

definition web_entries :: "entry list \<Rightarrow> entry list" where
  "web_entries fs = (case find_entry fs ''web'' of Some (Dir _ es) \<Rightarrow> es | _ \<Rightarrow> [])"

text \<open>Path components written with slashes between them.\<close>

fun slash_join :: "string list \<Rightarrow> string" where
  "slash_join [] = []"
| "slash_join [c] = c"
| "slash_join (c # cs) = c @ ''/'' @ slash_join cs"

text \<open>
  The files of a tree whose own name does not start with a dot, each with the names
  that lead to it and its content: first those of the directory itself, then those of
  every subdirectory, hidden or not, in the order of the listing.
\<close>

fun here_files :: "string list \<Rightarrow> entry list \<Rightarrow> (string list \<times> byte list) list" where
  "here_files pre [] = []"
| "here_files pre (File n content # es) =
     (if startswith n ''.'' then [] else [(pre @ [n], content)]) @ here_files pre es"
| "here_files pre (Dir _ _ # es) = here_files pre es"

fun visible_files :: "string list \<Rightarrow> entry list \<Rightarrow> (string list \<times> byte list) list" where
  "visible_files pre es =
     here_files pre es @
     concat (map (\<lambda>e. case e of
                          Dir n sub \<Rightarrow> visible_files (pre @ [n]) sub
                        | File _ _ \<Rightarrow> []) es)"

declare visible_files.simps [simp del]

text \<open>
  The header of bundle_web_files.py as a function of the assets alone: for an asset
  with the names \<^verbatim>\<open>comps\<close> below \<^verbatim>\<open>web\<close>, the relative path is the names joined by
  slashes, the file path is that below \<^verbatim>\<open>web\<close>, and the identifier is the symbolic name
  of the relative path.
\<close>

definition asset_items :: "string list \<times> byte list \<Rightarrow> item list" where
  "asset_items = (\<lambda>(comps, content).
     let rel_path = slash_join comps;
         var_name = spec_symbolic_name rel_path
     in [Verbatim (''// Bundled file: '' @ rel_path @ ''\<newline>''),
         ByteArray var_name content,
         StringConst (var_name @ ''_path'') rel_path,
         StringConst (var_name @ ''_mime'') (get_mime_type (slash_join (''web'' # comps))),
         Verbatim ''\<newline>''])"

definition bundle_items :: "(string list \<times> byte list) list \<Rightarrow> item list" where
  "bundle_items assets =
     [Verbatim combined_prologue] @ concat (map asset_items assets) @
     [Verbatim files_function_head] @
     map (\<lambda>(comps, _). MapInsert ''files'' (StrLit (slash_join comps))
            (AddrOf (spec_symbolic_name (slash_join comps)))) assets @
     [Verbatim paths_function_head] @
     map (\<lambda>(comps, _). MapInsert ''paths'' (StrLit (slash_join comps))
            (Ident (spec_symbolic_name (slash_join comps) @ ''_path''))) assets @
     [Verbatim mime_types_function_head] @
     map (\<lambda>(comps, _). MapInsert ''mime_types'' (StrLit (slash_join comps))
            (Ident (spec_symbolic_name (slash_join comps) @ ''_mime''))) assets @
     [Verbatim combined_epilogue]"

text \<open>The identifiers a list of items declares, in order and with repetitions.\<close>

fun declared_identifiers :: "item list \<Rightarrow> string list" where
  "declared_identifiers [] = []"
| "declared_identifiers (ByteArray x _ # items) = x # declared_identifiers items"
| "declared_identifiers (StringConst x _ # items) = x # declared_identifiers items"
| "declared_identifiers (_ # items) = declared_identifiers items"

subsection \<open>Example directories\<close>

definition example_cwd :: "string list" where
  "example_cwd = [''home'', ''dev'', ''DHT_Hunter'']"

definition site_index :: "entry list" where
  "site_index = [Dir ''web'' [File ''index.html'' [0x68, 0x69]]]"

definition site_hidden :: "entry list" where
  "site_hidden =
     [Dir ''web''
        [File ''index.html'' [0x68, 0x69],
         File ''.gitkeep'' [],
         Dir ''.git'' [File ''config'' [0x5b]]]]"

definition site_collision :: "entry list" where
  "site_collision =
     [Dir ''web'' [File ''a.b.css'' [0x61], File ''a-b.css'' [0x62]]]"

definition site_two :: "entry list" where
  "site_two =
     [File ''README.md'' [0x23],
      Dir ''web'' [File ''index.html'' [0x68, 0x69], Dir ''css'' [File ''a.css'' [0x70]]]]"

text \<open>
  The directory of \<^term>\<open>site_two\<close> after a first run, seen from another current
  directory: the generated header is there, the directory \<^verbatim>\<open>web\<close> is unchanged.
\<close>

definition site_two_again :: "entry list" where
  "site_two_again =
     [Dir ''include'' [Dir ''dht_hunter'' [Dir ''web'' [Dir ''bundle''
        [File ''web_bundle.hpp'' [0x2f, 0x2f]]]]],
      Dir ''web'' [File ''index.html'' [0x68, 0x69], Dir ''css'' [File ''a.css'' [0x70]]],
      File ''README.md'' [0x23, 0x21]]"

section \<open>Properties of the symbolic name\<close>

lemma of_char_mem: "c \<in> set cs \<longleftrightarrow> (of_char c :: nat) \<in> of_char ` set cs"
  by (auto simp: image_iff)

lemma spec_digits_iff:
  "c \<in> set spec_digits \<longleftrightarrow> 48 \<le> (of_char c :: nat) \<and> (of_char c :: nat) \<le> 57"
proof -
  have "c \<in> set spec_digits \<longleftrightarrow> (of_char c :: nat) \<in> of_char ` set spec_digits"
    by (rule of_char_mem)
  also have "\<dots> \<longleftrightarrow> 48 \<le> (of_char c :: nat) \<and> (of_char c :: nat) \<le> 57"
    unfolding spec_digits_def by simp arith
  finally show ?thesis .
qed

lemma spec_letters_iff:
  "c \<in> set spec_letters \<longleftrightarrow>
     (97 \<le> (of_char c :: nat) \<and> (of_char c :: nat) \<le> 122) \<or>
     (65 \<le> (of_char c :: nat) \<and> (of_char c :: nat) \<le> 90)"
proof -
  have "c \<in> set spec_letters \<longleftrightarrow> (of_char c :: nat) \<in> of_char ` set spec_letters"
    by (rule of_char_mem)
  also have "\<dots> \<longleftrightarrow>
     (97 \<le> (of_char c :: nat) \<and> (of_char c :: nat) \<le> 122) \<or>
     (65 \<le> (of_char c :: nat) \<and> (of_char c :: nat) \<le> 90)"
    unfolding spec_letters_def by simp arith
  finally show ?thesis .
qed

lemma is_ascii_alnum_iff:
  "is_ascii_alnum c \<longleftrightarrow> c \<in> set spec_letters \<or> c \<in> set spec_digits"
  by (auto simp: is_ascii_alnum_def Let_def spec_letters_iff spec_digits_iff)

lemma underscore_not_alnum [simp]: "\<not> is_ascii_alnum (CHR ''_'')"
  by (simp add: is_ascii_alnum_def)

lemma underscore_not_digit [simp]: "\<not> isdigit (CHR ''_'')"
  by (simp add: isdigit_def)

lemma isdigit_alnum: "is_ascii_alnum c \<Longrightarrow> isdigit c \<longleftrightarrow> c \<in> set spec_digits"
  by (auto simp: is_ascii_alnum_def isdigit_def Let_def spec_digits_iff)

lemma re_sub_non_alnum_spec:
  "re_sub_non_alnum name =
     map (\<lambda>c. if c \<in> set (spec_letters @ spec_digits) then c else CHR ''_'') name"
  by (simp add: re_sub_non_alnum_def is_ascii_alnum_iff)

lemma re_sub_non_alnum_chars:
  "list_all (\<lambda>d. d = CHR ''_'' \<or> is_ascii_alnum d) (re_sub_non_alnum name)"
  by (induction name) (simp_all add: re_sub_non_alnum_def)

lemma re_sub_non_alnum_Nil [simp]: "re_sub_non_alnum name = [] \<longleftrightarrow> name = []"
  by (simp add: re_sub_non_alnum_def)

lemma re_sub_non_alnum_stable:
  "list_all (\<lambda>d. d = CHR ''_'' \<or> is_ascii_alnum d) xs \<Longrightarrow> re_sub_non_alnum xs = xs"
  by (induction xs) (auto simp: re_sub_non_alnum_def)

lemma hd_isdigit_spec:
  assumes "list_all (\<lambda>d. d = CHR ''_'' \<or> is_ascii_alnum d) (c # cs)"
  shows "isdigit c \<longleftrightarrow> c \<in> set spec_digits"
  using assms by (auto simp: isdigit_alnum spec_digits_iff)

lemma sanitize_var_name_eq_spec:
  assumes "name \<noteq> []"
  shows "sanitize_var_name name = Inr (spec_symbolic_name name)"
proof -
  obtain c cs where r: "re_sub_non_alnum name = c # cs"
    using assms by (cases "re_sub_non_alnum name") simp_all
  have "list_all (\<lambda>d. d = CHR ''_'' \<or> is_ascii_alnum d) (c # cs)"
    using re_sub_non_alnum_chars [of name] r by simp
  then have d: "isdigit c \<longleftrightarrow> c \<in> set spec_digits"
    by (rule hd_isdigit_spec)
  have r': "map (\<lambda>c. if c \<in> set (spec_letters @ spec_digits) then c else CHR ''_'') name = c # cs"
    using r by (simp only: re_sub_non_alnum_spec)
  have "spec_symbolic_name name = (if c \<in> set spec_digits then CHR ''_'' # c # cs else c # cs)"
    unfolding spec_symbolic_name_def r' by (simp add: Let_def)
  moreover have "sanitize_var_name name = Inr (if isdigit c then CHR ''_'' # c # cs else c # cs)"
    using r by (simp add: sanitize_var_name_def Let_def)
  ultimately show ?thesis
    using d by simp
qed

lemma sanitize_var_name_matches:
  assumes "sanitize_var_name name = Inr v"
  shows "matches_identifier v"
proof -
  obtain c cs where r: "re_sub_non_alnum name = c # cs"
    using assms by (cases "re_sub_non_alnum name") (simp_all add: sanitize_var_name_def)
  have all: "list_all (\<lambda>d. d = CHR ''_'' \<or> is_ascii_alnum d) (c # cs)"
    using re_sub_non_alnum_chars [of name] r by simp
  then have tl: "list_all (\<lambda>d. d = CHR ''_'' \<or> d \<in> set spec_letters \<or> d \<in> set spec_digits) (c # cs)"
    by (simp add: is_ascii_alnum_iff list_all_iff)
  have d: "isdigit c \<longleftrightarrow> c \<in> set spec_digits"
    using all by (rule hd_isdigit_spec)
  have v: "v = (if isdigit c then CHR ''_'' # c # cs else c # cs)"
    using assms r by (auto simp: sanitize_var_name_def Let_def)
  show ?thesis
  proof (cases "isdigit c")
    case True
    then show ?thesis
      using v tl by (simp add: matches_identifier_def)
  next
    case False
    then have "c = CHR ''_'' \<or> c \<in> set spec_letters"
      using tl d by auto
    then show ?thesis
      using v tl False by (simp add: matches_identifier_def)
  qed
qed

text \<open>
  C4. For every non-empty relative path the name the code derives is the one the
  specification describes (every character outside \<^verbatim>\<open>[A-Za-z0-9]\<close> replaced by an underscore,
  an underscore prepended when the result starts with a digit), and it matches
  \<^verbatim>\<open>[_A-Za-z][_A-Za-z0-9]*\<close>; \<^verbatim>\<open>css/main-v2.css\<close> gives \<^verbatim>\<open>css_main_v2_css\<close> and
  \<^verbatim>\<open>3d/model.json\<close> gives \<^verbatim>\<open>_3d_model_json\<close>.
\<close>

theorem sanitize_var_name_symbolic_name:
  "(name \<noteq> [] \<longrightarrow>
      sanitize_var_name name = Inr (spec_symbolic_name name) \<and>
      matches_identifier (spec_symbolic_name name)) \<and>
   sanitize_var_name ''css/main-v2.css'' = Inr ''css_main_v2_css'' \<and>
   sanitize_var_name ''3d/model.json'' = Inr ''_3d_model_json''"
proof (intro conjI impI)
  assume n: "name \<noteq> []"
  show e: "sanitize_var_name name = Inr (spec_symbolic_name name)"
    using n by (rule sanitize_var_name_eq_spec)
  show "matches_identifier (spec_symbolic_name name)"
    using e by (rule sanitize_var_name_matches)
next
  show "sanitize_var_name ''css/main-v2.css'' = Inr ''css_main_v2_css''"
    by (simp add: sanitize_var_name_def re_sub_non_alnum_def is_ascii_alnum_def isdigit_def)
next
  show "sanitize_var_name ''3d/model.json'' = Inr ''_3d_model_json''"
    by (simp add: sanitize_var_name_def re_sub_non_alnum_def is_ascii_alnum_def isdigit_def)
qed

theorem sanitize_var_name_symbolic_name_witness:
  "''js/app.min.js'' \<noteq> [] \<and>
   sanitize_var_name ''js/app.min.js'' = Inr ''js_app_min_js'' \<and>
   matches_identifier ''js_app_min_js''"
proof -
  have s: "spec_symbolic_name ''js/app.min.js'' = ''js_app_min_js''"
    by (simp add: spec_symbolic_name_def spec_letters_def spec_digits_def)
  show ?thesis
    using sanitize_var_name_symbolic_name [of "''js/app.min.js''"] by (simp add: s)
qed

text \<open>
  C10. The derivation is idempotent: on a non-empty string it returns a name, and
  deriving a name from that name returns it unchanged.
\<close>

theorem sanitize_var_name_idempotent:
  assumes "s \<noteq> []"
  shows "\<exists>v. sanitize_var_name s = Inr v \<and> sanitize_var_name v = Inr v"
proof -
  obtain c cs where r: "re_sub_non_alnum s = c # cs"
    using assms by (cases "re_sub_non_alnum s") simp_all
  have all: "list_all (\<lambda>d. d = CHR ''_'' \<or> is_ascii_alnum d) (c # cs)"
    using re_sub_non_alnum_chars [of s] r by simp
  have stable: "re_sub_non_alnum (c # cs) = c # cs"
    using all by (rule re_sub_non_alnum_stable)
  define v where "v = (if isdigit c then CHR ''_'' # c # cs else c # cs)"
  have sv: "sanitize_var_name s = Inr v"
    unfolding sanitize_var_name_def r v_def by (simp add: Let_def)
  have "list_all (\<lambda>d. d = CHR ''_'' \<or> is_ascii_alnum d) v"
    using all by (simp add: v_def)
  then have rv: "re_sub_non_alnum v = v"
    by (rule re_sub_non_alnum_stable)
  have "sanitize_var_name v = Inr v"
    unfolding sanitize_var_name_def rv by (simp add: v_def Let_def)
  with sv show ?thesis by blast
qed

theorem sanitize_var_name_idempotent_witness:
  "''3d/model.json'' \<noteq> [] \<and>
   sanitize_var_name ''3d/model.json'' = Inr ''_3d_model_json'' \<and>
   sanitize_var_name ''_3d_model_json'' = Inr ''_3d_model_json''"
proof -
  have "sanitize_var_name ''3d/model.json'' = Inr ''_3d_model_json''"
    by (simp add: sanitize_var_name_def re_sub_non_alnum_def is_ascii_alnum_def isdigit_def)
  then show ?thesis
    using sanitize_var_name_idempotent [of "''3d/model.json''"] by auto
qed

section \<open>The round trip of the byte array literal\<close>

lemma decode_elements_separator:
  "is_separator c \<Longrightarrow> decode_elements (c # cs) = decode_elements cs"
  by (cases "(c # cs)" rule: decode_elements.cases) (auto simp: is_separator_def)

lemma decode_elements_element:
  "hex_value h = Some a \<Longrightarrow> hex_value l = Some b \<Longrightarrow>
   decode_elements (CHR ''0'' # CHR ''x'' # h # l # rest) =
     map_option ((#) (of_nat (16 * a + b))) (decode_elements rest)"
  by simp

lemma hex_value_digit: "k < 16 \<Longrightarrow> hex_value (hex_digits ! k) = Some k"
proof -
  assume "k < 16"
  then have "k \<in> {0,1,2,3,4,5,6,7,8,9,10,11,12,13,14,15}" by simp arith
  then show ?thesis
    by (auto simp: hex_value_def hex_digits_def)
qed

lemma unat_byte_less: "unat (b :: byte) < 256"
  using unsigned_less [of b, where 'a = nat] by simp

text \<open>A byte is always written as exactly two digits: the high and the low nibble.\<close>

lemma format_02x_digits:
  "format_02x b = [hex_digits ! (unat b div 16), hex_digits ! (unat b mod 16)]"
proof (cases "unat b < 16")
  case True
  then have "hex_str (unat b) = [hex_digits ! unat b]"
    by (simp add: hex_str.simps)
  then show ?thesis using True
    by (simp add: format_02x_def hex_digits_def)
next
  case False
  have "unat b div 16 < 16" using unat_byte_less [of b] by simp
  then have "hex_str (unat b div 16) = [hex_digits ! (unat b div 16)]"
    by (simp add: hex_str.simps)
  then have "hex_str (unat b) = [hex_digits ! (unat b div 16), hex_digits ! (unat b mod 16)]"
    using False by (subst hex_str.simps) simp
  then show ?thesis by (simp add: format_02x_def)
qed

lemma decode_elements_format:
  "decode_elements (''0x'' @ format_02x b @ '', '' @ rest) =
     map_option ((#) b) (decode_elements rest)"
proof -
  have h: "hex_value (hex_digits ! (unat b div 16)) = Some (unat b div 16)"
    using unat_byte_less [of b] by (intro hex_value_digit) simp
  have l: "hex_value (hex_digits ! (unat b mod 16)) = Some (unat b mod 16)"
    by (intro hex_value_digit) simp
  have "(of_nat (16 * (unat b div 16) + unat b mod 16) :: byte) = b"
    by simp
  then show ?thesis
    using decode_elements_element [OF h l]
    by (simp add: format_02x_digits decode_elements_separator is_separator_def)
qed

lemma decode_elements_write_bytes_append:
  "decode_elements (write_bytes i content @ rest) = map_option ((@) content) (decode_elements rest)"
proof (induction content arbitrary: i)
  case Nil
  show ?case by (simp add: option.map_ident)
next
  case (Cons b bs)
  have "decode_elements (write_bytes i (b # bs) @ rest) =
        decode_elements (''0x'' @ format_02x b @ '', '' @ (write_bytes (Suc i) bs @ rest))"
    by (simp add: decode_elements_separator is_separator_def del: decode_elements.simps)
  also have "\<dots> = map_option ((#) b) (decode_elements (write_bytes (Suc i) bs @ rest))"
    by (rule decode_elements_format)
  finally show ?case
    by (simp add: Cons.IH option.map_comp comp_def)
qed

lemma hex_digit_not_brace: "k < 16 \<Longrightarrow> hex_digits ! k \<noteq> CHR ''}''"
proof -
  assume "k < 16"
  then have "hex_digits ! k \<in> set hex_digits"
    by (intro nth_mem) (simp add: hex_digits_def)
  then show ?thesis by (auto simp: hex_digits_def)
qed

lemma write_bytes_no_brace: "CHR ''}'' \<notin> set (write_bytes i content)"
proof (induction content arbitrary: i)
  case Nil
  show ?case by simp
next
  case (Cons b bs)
  have "unat b div 16 < 16" using unat_byte_less [of b] by simp
  then have "CHR ''}'' \<notin> set (format_02x b)"
    using hex_digit_not_brace [of "unat b div 16"] hex_digit_not_brace [of "unat b mod 16"]
    by (simp add: format_02x_digits)
  then show ?case using Cons by simp
qed

lemma matches_identifier_no_brace: "matches_identifier v \<Longrightarrow> CHR ''{'' \<notin> set v"
proof -
  assume m: "matches_identifier v"
  have "CHR ''{'' \<notin> set spec_letters" "CHR ''{'' \<notin> set spec_digits"
    by (simp_all add: spec_letters_def spec_digits_def)
  then show ?thesis
    using m by (cases v) (auto simp: matches_identifier_def list_all_iff)
qed

lemma array_body_render:
  assumes "CHR ''{'' \<notin> set var_name"
  shows "array_body (render (ByteArray var_name content)) =
           ''\<newline>'' @ write_bytes 0 content @ ''\<newline>''"
proof -
  let ?head = "''inline const std::vector<unsigned char> '' @ var_name @ '' = ''"
  let ?tail = "''\<newline>'' @ write_bytes 0 content @ ''\<newline>'' @ ''};\<newline>''"
  have r: "render (ByteArray var_name content) = ?head @ CHR ''{'' # ?tail"
    by simp
  have "\<And>x. x \<in> set ?head \<Longrightarrow> x \<noteq> CHR ''{''"
    using assms by auto
  then have "dropWhile (\<lambda>c. c \<noteq> CHR ''{'') (?head @ CHR ''{'' # ?tail) = CHR ''{'' # ?tail"
    by (subst dropWhile_append2) simp_all
  then have "array_body (render (ByteArray var_name content)) =
        takeWhile (\<lambda>c. c \<noteq> CHR ''}'') ((''\<newline>'' @ write_bytes 0 content @ ''\<newline>'') @ CHR ''}'' # '';\<newline>'')"
    unfolding array_body_def r by simp
  also have "\<dots> = takeWhile (\<lambda>c. c \<noteq> CHR ''}'') (''\<newline>'' @ write_bytes 0 content @ ''\<newline>'')"
    by (rule takeWhile_tail) simp
  also have "\<dots> = ''\<newline>'' @ write_bytes 0 content @ ''\<newline>''"
    using write_bytes_no_brace [of 0 content] by (intro takeWhile_eq_all_conv [THEN iffD2]) auto
  finally show ?thesis .
qed

lemma decode_byte_array_render:
  assumes "CHR ''{'' \<notin> set var_name"
  shows "decode_byte_array (render (ByteArray var_name content)) = Some content"
proof -
  have "decode_elements (''\<newline>'' @ write_bytes 0 content @ ''\<newline>'') =
        decode_elements (write_bytes 0 content @ ''\<newline>'')"
    by (simp add: decode_elements_separator is_separator_def del: decode_elements.simps)
  also have "\<dots> = map_option ((@) content) (decode_elements ''\<newline>'')"
    by (rule decode_elements_write_bytes_append)
  also have "\<dots> = Some content"
    by (simp add: is_separator_def)
  finally show ?thesis
    by (simp only: decode_byte_array_def array_body_render [OF assms])
qed

text \<open>
  C3. Reading back the elements the loop writes gives the content of the file, byte for
  byte, whatever the content is and at whatever index the loop starts. The same holds
  for the declaration as it stands in the generated header: the elements between its
  braces read back as the content. The empty file gives an array without elements,
  which reads back as the empty content.
\<close>

theorem decode_elements_write_bytes:
  "decode_elements (write_bytes i content) = Some content \<and>
   (sanitize_var_name rel_path = Inr var_name \<longrightarrow>
      decode_byte_array (render (ByteArray var_name content)) = Some content)"
proof (intro conjI impI)
  show "decode_elements (write_bytes i content) = Some content"
    using decode_elements_write_bytes_append [of i content "[]"] by simp
next
  assume "sanitize_var_name rel_path = Inr var_name"
  then have "matches_identifier var_name"
    by (rule sanitize_var_name_matches)
  then have "CHR ''{'' \<notin> set var_name"
    by (rule matches_identifier_no_brace)
  then show "decode_byte_array (render (ByteArray var_name content)) = Some content"
    by (rule decode_byte_array_render)
qed

theorem decode_elements_write_bytes_witness:
  "sanitize_var_name ''index.html'' = Inr ''index_html'' \<and>
   render (ByteArray ''index_html'' [0x3c, 0x21, 0x0a, 0xff]) =
     ''inline const std::vector<unsigned char> index_html = {\<newline>'' @
     ''\<newline>'' @
     ''    0x3c, 0x21, 0x0a, 0xff, \<newline>'' @
     ''};\<newline>'' \<and>
   decode_byte_array (render (ByteArray ''index_html'' [0x3c, 0x21, 0x0a, 0xff])) =
     Some [0x3c, 0x21, 0x0a, 0xff] \<and>
   render (ByteArray ''index_html'' []) =
     ''inline const std::vector<unsigned char> index_html = {\<newline>'' @
     ''\<newline>'' @
     ''};\<newline>'' \<and>
   decode_byte_array (render (ByteArray ''index_html'' [])) = Some []"
proof -
  have s: "sanitize_var_name ''index.html'' = Inr ''index_html''"
    by code_simp
  have r: "render (ByteArray ''index_html'' [0x3c, 0x21, 0x0a, 0xff]) =
     ''inline const std::vector<unsigned char> index_html = {\<newline>'' @
     ''\<newline>'' @
     ''    0x3c, 0x21, 0x0a, 0xff, \<newline>'' @
     ''};\<newline>''"
    by (simp add: format_02x_digits hex_digits_def)
  have e: "render (ByteArray ''index_html'' []) =
     ''inline const std::vector<unsigned char> index_html = {\<newline>'' @
     ''\<newline>'' @
     ''};\<newline>''"
    by simp
  have d: "decode_byte_array (render (ByteArray ''index_html'' [0x3c, 0x21, 0x0a, 0xff])) =
     Some [0x3c, 0x21, 0x0a, 0xff]"
    using decode_elements_write_bytes [of _ "[0x3c, 0x21, 0x0a, 0xff]" "''index.html''" "''index_html''"] s
    by blast
  have d0: "decode_byte_array (render (ByteArray ''index_html'' [])) = Some []"
    using decode_elements_write_bytes [of _ "[]" "''index.html''" "''index_html''"] s
    by blast
  show ?thesis
    using s r e d d0 by blast
qed

section \<open>The MIME type\<close>

lemma rfind_append: "c \<notin> set e \<Longrightarrow> rfind (xs @ c # e) c = int (length xs)"
proof -
  assume "c \<notin> set e"
  then have "takeWhile (\<lambda>x. x \<noteq> c) (rev e @ c # rev xs) = rev e"
    by (subst takeWhile_append2) auto
  then show ?thesis by (simp add: rfind_def)
qed

lemma rfind_absent: "c \<notin> set p \<Longrightarrow> rfind p c = - 1"
  by (simp add: rfind_def)

lemma rfind_cases:
  obtains "c \<notin> set p" "rfind p c = - 1"
  | xs e where "p = xs @ c # e" "c \<notin> set e" "rfind p c = int (length xs)"
proof (cases "c \<in> set p")
  case False
  then show ?thesis using that(1) rfind_absent by blast
next
  case True
  then obtain xs e where "p = xs @ c # e" "c \<notin> set e"
    by (meson split_list_last)
  then show ?thesis using that(2) rfind_append by blast
qed

lemma splitext_loop_snd:
  "snd (splitext_loop p f d) = [] \<or> snd (splitext_loop p f d) = drop d p"
  by (induction p f d rule: splitext_loop.induct) (subst (1 2) splitext_loop.simps, auto)

lemma splitext_ext:
  "snd (splitext p) = [] \<or> (\<exists>e. snd (splitext p) = CHR ''.'' # e)"
proof (cases p "CHR ''.''" rule: rfind_cases)
  case 1
  have "- 1 \<le> rfind p (CHR ''/'')"
    by (simp add: rfind_def)
  then show ?thesis using 1 by (simp add: splitext_def Let_def)
next
  case (2 xs e)
  have "drop (length xs) p = CHR ''.'' # e" using 2 by simp
  then show ?thesis
    using 2(3) splitext_loop_snd [of p "nat (rfind p (CHR ''/'') + 1)" "length xs"]
    by (auto simp: splitext_def Let_def)
qed


lemma splitext_loop_found:
  assumes "f \<le> k" "k < d" "p ! k \<noteq> CHR ''.''" "d \<le> length p"
  shows "splitext_loop p f d = (take d p, drop d p)"
  using assms
proof (induction p f d rule: splitext_loop.induct)
  case (1 p f d)
  have fd: "f < d" using "1.prems" by simp
  then have fl: "f < length p" using "1.prems" by simp
  have t: "take 1 (drop f p) = [p ! f]"
    using fl by (subst Cons_nth_drop_Suc [symmetric]) simp_all
  show ?case
  proof (cases "p ! f = CHR ''.''")
    case True
    then have "f \<noteq> k" using "1.prems" by auto
    then have "f + 1 \<le> k" using "1.prems" by simp
    then have "splitext_loop p (f + 1) d = (take d p, drop d p)"
      using "1.IH" fd t True "1.prems" by simp
    then show ?thesis
      using fd t True by (subst splitext_loop.simps) simp
  next
    case False
    then show ?thesis
      using fd t by (subst splitext_loop.simps) simp
  qed
qed

lemma rfind_sep_dir:
  assumes "dir = [] \<or> last dir = c" "c \<notin> set name"
  shows "rfind (dir @ name) c = int (length dir) - 1"
  proof (cases "dir = []")
    case True
    then show ?thesis using assms by (simp add: rfind_absent)
  next
    case False
    then obtain d where d: "dir = d @ [c]"
      using assms by (metis append_butlast_last_id)
    then have "rfind ((d @ c # name)) c = int (length d)"
      using assms by (intro rfind_append) simp
    then show ?thesis using d by simp
  qed

lemma splitext_file_name:
  assumes dir: "dir = [] \<or> last dir = CHR ''/''"
    and stem: "CHR ''/'' \<notin> set stem" "\<exists>c\<in>set stem. c \<noteq> CHR ''.''"
    and e: "CHR ''/'' \<notin> set e" "CHR ''.'' \<notin> set e"
  shows "splitext (dir @ stem @ CHR ''.'' # e) = (dir @ stem, CHR ''.'' # e)"
proof -
  let ?p = "dir @ stem @ CHR ''.'' # e"
  have "CHR ''/'' \<notin> set (stem @ CHR ''.'' # e)"
    using stem e by simp
  then have sep: "rfind ?p (CHR ''/'') = int (length dir) - 1"
    using rfind_sep_dir [OF dir] by blast
  have dot: "rfind ?p (CHR ''.'') = int (length (dir @ stem))"
    using rfind_append [of "CHR ''.''" e "dir @ stem"] e by simp
  obtain j where j: "j < length stem" "stem ! j \<noteq> CHR ''.''"
    using stem(2) by (auto simp: in_set_conv_nth)
  have "splitext_loop ?p (length dir) (length (dir @ stem)) =
        (take (length (dir @ stem)) ?p, drop (length (dir @ stem)) ?p)"
  proof (rule splitext_loop_found [where k = "length dir + j"])
    show "?p ! (length dir + j) \<noteq> CHR ''.''"
      using j by (simp add: nth_append)
  qed (use j in simp_all)
  then have "splitext_loop ?p (length dir) (length (dir @ stem)) = (dir @ stem, CHR ''.'' # e)"
    by simp
  then show ?thesis
    using sep dot by (simp add: splitext_def Let_def nat_int_add)
qed

lemma splitext_no_dot:
  assumes dir: "dir = [] \<or> last dir = CHR ''/''"
    and name: "CHR ''/'' \<notin> set name" "CHR ''.'' \<notin> set name"
  shows "splitext (dir @ name) = (dir @ name, [])"
proof -
  have sep: "rfind (dir @ name) (CHR ''/'') = int (length dir) - 1"
    using rfind_sep_dir [OF dir name(1)] .
  have "rfind (dir @ name) (CHR ''.'') \<le> rfind (dir @ name) (CHR ''/'')"
  proof (cases "dir @ name" "CHR ''.''" rule: rfind_cases)
    case 1
    then show ?thesis using sep by simp
  next
    case (2 xs e)
    have "CHR ''.'' \<in> set dir" using 2(1) name(2)
      by (metis Un_iff in_set_conv_decomp set_append)
    then have ne: "dir \<noteq> []" by auto
    then have l: "last dir = CHR ''/''" using dir by simp
    have "length xs < length dir"
    proof (rule ccontr)
      assume "\<not> length xs < length dir"
      then have "(dir @ name) ! length xs = name ! (length xs - length dir)"
        by (simp add: nth_append)
      moreover have "length xs - length dir < length name"
        using 2(1) \<open>\<not> length xs < length dir\<close>
        by (metis add_diff_inverse_nat length_append length_Cons nat_add_left_cancel_less
            less_add_Suc1 add_Suc_right less_Suc_eq)
      moreover have "(dir @ name) ! length xs = CHR ''.''" using 2(1) by simp
      ultimately show False using name(2) by (metis nth_mem)
    qed
    moreover have "length xs \<noteq> length dir - 1"
    proof
      assume "length xs = length dir - 1"
      then have "(dir @ name) ! length xs = last dir"
        using ne by (simp add: nth_append last_conv_nth)
      moreover have "(dir @ name) ! length xs = CHR ''.''" using 2(1) by simp
      ultimately show False using l by simp
    qed
    ultimately show ?thesis using 2(3) sep by simp
  qed
  then show ?thesis by (simp add: splitext_def Let_def)
qed

lemma mime_types_spec: "map_of mime_types (CHR ''.'' # e) = map_of spec_mime_table e"
  by (simp add: mime_types_def spec_mime_table_def)

lemma mime_types_Nil: "map_of mime_types [] = None"
  by (simp add: mime_types_def)

lemma get_mime_type_no_ext:
  "snd (splitext file_path) = [] \<Longrightarrow> get_mime_type file_path = ''application/octet-stream''"
  by (simp add: get_mime_type_def lower_def mime_types_Nil)

lemma get_mime_type_ext:
  assumes "snd (splitext file_path) = CHR ''.'' # e"
  shows "get_mime_type file_path = spec_resolve_mime (lower e)"
proof -
  have "lower_char (CHR ''.'') = CHR ''.''"
    by (simp add: lower_char_def)
  then have "lower (snd (splitext file_path)) = CHR ''.'' # lower e"
    using assms by (simp add: lower_def)
  then show ?thesis
    by (simp add: get_mime_type_def spec_resolve_mime_def mime_types_spec)
qed

text \<open>
  What the extension of a file name is: the text from the last dot of the last path
  component, when a character other than a dot stands before that dot.
\<close>

lemma get_mime_type_file_name:
  assumes "dir = [] \<or> last dir = CHR ''/''"
    and "CHR ''/'' \<notin> set stem" "\<exists>c\<in>set stem. c \<noteq> CHR ''.''"
    and "CHR ''/'' \<notin> set e" "CHR ''.'' \<notin> set e"
  shows "get_mime_type (dir @ stem @ CHR ''.'' # e) = spec_resolve_mime (lower e)"
  using splitext_file_name [OF assms] by (intro get_mime_type_ext) simp

lemma get_mime_type_no_dot:
  assumes "dir = [] \<or> last dir = CHR ''/''"
    and "CHR ''/'' \<notin> set name" "CHR ''.'' \<notin> set name"
  shows "get_mime_type (dir @ name) = ''application/octet-stream''"
  using splitext_no_dot [OF assms] by (intro get_mime_type_no_ext) simp

text \<open>
  C5. For every file path, the extension that \<^verbatim>\<open>os.path.splitext\<close> returns is empty or
  starts with a dot. With no extension the MIME type is \<^verbatim>\<open>application/octet-stream\<close>;
  otherwise it is the entry of the fixed table for the lower-cased extension, and
  \<^verbatim>\<open>application/octet-stream\<close> when the table has no such entry. The four paths of the
  specification resolve as it says.
\<close>

theorem get_mime_type_table:
  "(snd (splitext file_path) = [] \<or> (\<exists>e. snd (splitext file_path) = CHR ''.'' # e)) \<and>
   (snd (splitext file_path) = [] \<longrightarrow> get_mime_type file_path = ''application/octet-stream'') \<and>
   (\<forall>e. snd (splitext file_path) = CHR ''.'' # e \<longrightarrow>
        get_mime_type file_path = spec_resolve_mime (lower e)) \<and>
   get_mime_type ''index.html'' = ''text/html'' \<and>
   get_mime_type ''app.js'' = ''application/javascript'' \<and>
   get_mime_type ''logo.svg'' = ''image/svg+xml'' \<and>
   get_mime_type ''data.bin'' = ''application/octet-stream''"
proof (intro conjI allI impI)
  show "snd (splitext file_path) = [] \<or> (\<exists>e. snd (splitext file_path) = CHR ''.'' # e)"
    by (rule splitext_ext)
next
  assume "snd (splitext file_path) = []"
  then show "get_mime_type file_path = ''application/octet-stream''"
    by (rule get_mime_type_no_ext)
next
  fix e
  assume "snd (splitext file_path) = CHR ''.'' # e"
  then show "get_mime_type file_path = spec_resolve_mime (lower e)"
    by (rule get_mime_type_ext)
next
  show "get_mime_type ''index.html'' = ''text/html''"
    by code_simp
next
  show "get_mime_type ''app.js'' = ''application/javascript''"
    by code_simp
next
  show "get_mime_type ''logo.svg'' = ''image/svg+xml''"
    by code_simp
next
  show "get_mime_type ''data.bin'' = ''application/octet-stream''"
    by code_simp
qed

theorem get_mime_type_table_witness:
  "snd (splitext ''web/img/Photo.JPEG'') = CHR ''.'' # ''JPEG'' \<and>
   get_mime_type ''web/img/Photo.JPEG'' = ''image/jpeg'' \<and>
   snd (splitext ''web/.htaccess'') = [] \<and>
   get_mime_type ''web/.htaccess'' = ''application/octet-stream''"
proof -
  have s: "snd (splitext ''web/img/Photo.JPEG'') = CHR ''.'' # ''JPEG''"
    by code_simp
  have l: "spec_resolve_mime (lower ''JPEG'') = ''image/jpeg''"
    by code_simp
  have n: "snd (splitext ''web/.htaccess'') = []"
    by code_simp
  have "get_mime_type ''web/img/Photo.JPEG'' = spec_resolve_mime (lower ''JPEG'')"
    using get_mime_type_table [of "''web/img/Photo.JPEG''"] s by blast
  moreover have "get_mime_type ''web/.htaccess'' = ''application/octet-stream''"
    using get_mime_type_table [of "''web/.htaccess''"] n by blast
  ultimately show ?thesis
    using s l n by simp
qed

section \<open>Paths built from valid names\<close>

lemma split_not_Nil [simp]: "split sep s \<noteq> []"
  by (induction s) simp_all

lemma split_append_sep: "split sep (a @ sep # b) = split sep a @ split sep b"
  by (induction a) (simp_all add: hd_append)

lemma split_no_sep: "sep \<notin> set n \<Longrightarrow> split sep n = [n]"
  by (induction n) auto

lemma valid_name_no_slash: "valid_name n \<Longrightarrow> CHR ''/'' \<notin> set n"
  by (simp add: valid_name_def)

lemma slash_join_snoc: "cs \<noteq> [] \<Longrightarrow> slash_join (cs @ [n]) = slash_join cs @ ''/'' @ n"
  by (induction cs rule: slash_join.induct) simp_all

lemma split_slash_join:
  "list_all valid_name cs \<Longrightarrow> cs \<noteq> [] \<Longrightarrow> split (CHR ''/'') (slash_join cs) = cs"
proof (induction cs rule: slash_join.induct)
  case 1
  then show ?case by simp
next
  case (2 c)
  then show ?case by (simp add: split_no_sep valid_name_no_slash)
next
  case (3 c d ds)
  have "split (CHR ''/'') (c @ CHR ''/'' # slash_join (d # ds)) =
        split (CHR ''/'') c @ split (CHR ''/'') (slash_join (d # ds))"
    by (rule split_append_sep)
  then show ?case using 3 by (simp add: split_no_sep valid_name_no_slash)
qed

lemma slash_join_not_Nil:
  "list_all valid_name cs \<Longrightarrow> cs \<noteq> [] \<Longrightarrow> slash_join cs \<noteq> []"
  by (induction cs rule: slash_join.induct) (simp_all add: valid_name_def)

lemma hd_slash_join:
  "list_all valid_name cs \<Longrightarrow> cs \<noteq> [] \<Longrightarrow> hd (slash_join cs) \<noteq> CHR ''/''"
proof (induction cs rule: slash_join.induct)
  case (2 c)
  then show ?case by (cases c) (auto simp: valid_name_def)
next
  case (3 c d ds)
  then show ?case by (cases c) (auto simp: valid_name_def)
qed simp

lemma last_slash_join:
  "list_all valid_name cs \<Longrightarrow> cs \<noteq> [] \<Longrightarrow> last (slash_join cs) \<noteq> CHR ''/''"
proof (induction cs rule: slash_join.induct)
  case (2 c)
  then have "c \<noteq> []" "CHR ''/'' \<notin> set c" by (simp_all add: valid_name_def)
  then have "last c \<in> set c" "CHR ''/'' \<notin> set c" by simp_all
  then show ?case by auto
next
  case (3 c d ds)
  then have "slash_join (d # ds) \<noteq> []" by (intro slash_join_not_Nil) simp_all
  then show ?case using 3 by simp
qed simp

lemma startswith_slash: "startswith s ''/'' \<longleftrightarrow> s \<noteq> [] \<and> hd s = CHR ''/''"
  by (cases s) (simp_all add: startswith_def)

lemma endswith_slash: "endswith s ''/'' \<longleftrightarrow> s \<noteq> [] \<and> last s = CHR ''/''"
proof (cases s rule: rev_cases)
  case Nil
  then show ?thesis by (simp add: endswith_def)
next
  case (snoc xs x)
  then show ?thesis by (auto simp: endswith_def)
qed

lemma os_path_join_slash_join:
  assumes "list_all valid_name cs" "cs \<noteq> []" "valid_name n"
  shows "os_path_join (slash_join cs) n = slash_join (cs @ [n])"
proof -
  have "\<not> startswith n ''/''"
    using assms(3) by (cases n) (auto simp: startswith_slash valid_name_def)
  moreover have "slash_join cs \<noteq> []"
    using assms by (intro slash_join_not_Nil)
  moreover have "\<not> endswith (slash_join cs) ''/''"
    using last_slash_join [OF assms(1,2)] by (simp add: endswith_slash)
  ultimately show ?thesis
    using assms(2) by (simp add: os_path_join_def slash_join_snoc)
qed

lemma foldl_os_path_join:
  "valid_name r \<Longrightarrow> list_all valid_name rs \<Longrightarrow> foldl os_path_join r rs = slash_join (r # rs)"
proof (induction rs rule: rev_induct)
  case Nil
  show ?case by simp
next
  case (snoc n ns)
  then have "foldl os_path_join r (ns @ [n]) = os_path_join (slash_join (r # ns)) n"
    by simp
  also have "\<dots> = slash_join ((r # ns) @ [n])"
    using snoc.prems by (intro os_path_join_slash_join) simp_all
  finally show ?case by simp
qed

lemma normpath_comps_valid:
  "list_all valid_name cs \<Longrightarrow> normpath_comps acc cs = acc @ cs"
  by (induction cs arbitrary: acc) (auto simp: valid_name_def)

lemma abspath_list_slash_join:
  assumes "list_all valid_name cwd" "list_all valid_name cs" "cs \<noteq> []"
  shows "abspath_list cwd (slash_join cs) = cwd @ cs"
proof -
  have "\<not> startswith (slash_join cs) ''/''"
    using hd_slash_join [OF assms(2,3)] by (simp add: startswith_slash)
  then show ?thesis
    using assms by (simp add: abspath_list_def split_slash_join normpath_comps_valid)
qed

lemma commonprefix_append: "commonprefix xs (xs @ ys) = xs"
  by (induction xs) simp_all

lemma valid_name_web: "valid_name ''web''"
  by (simp add: valid_name_def)

lemma os_path_relpath_web:
  assumes "list_all valid_name cwd" "list_all valid_name comps" "comps \<noteq> []"
  shows "os_path_relpath cwd (slash_join (''web'' # comps)) ''web'' = Inr (slash_join comps)"
proof -
  have s: "abspath_list cwd ''web'' = cwd @ [''web'']"
    using abspath_list_slash_join [OF assms(1), of "[''web'']"] valid_name_web by simp
  have p: "abspath_list cwd (slash_join (''web'' # comps)) = cwd @ ''web'' # comps"
    using assms valid_name_web by (intro abspath_list_slash_join) simp_all
  have ne: "slash_join (''web'' # comps) \<noteq> []"
    using assms valid_name_web by (intro slash_join_not_Nil) simp_all
  have c: "commonprefix (cwd @ [''web'']) (cwd @ ''web'' # comps) = cwd @ [''web'']"
    using commonprefix_append [of "cwd @ [''web'']" comps] by simp
  obtain r rs where r: "comps = r # rs"
    using assms(3) by (cases comps) simp_all
  have "foldl os_path_join r rs = slash_join (r # rs)"
    using assms(2) r by (intro foldl_os_path_join) simp_all
  then show ?thesis
    unfolding os_path_relpath_def s p Let_def c using ne r by simp
qed

section \<open>The relative path is never empty\<close>

lemma normpath_comps_not_Nil:
  "[] \<notin> set acc \<Longrightarrow> [] \<notin> set (normpath_comps acc cs)"
proof (induction cs arbitrary: acc)
  case Nil
  then show ?case by simp
next
  case (Cons c cs)
  have b: "[] \<notin> set (butlast acc)"
    using Cons.prems by (auto dest: in_set_butlastD)
  have s: "c \<noteq> [] \<Longrightarrow> [] \<notin> set (acc @ [c])"
    using Cons.prems by auto
  show ?case
    using Cons.IH [OF b] Cons.IH [OF s] Cons.IH [OF Cons.prems] by simp
qed

lemma abspath_list_not_Nil: "[] \<notin> set (abspath_list cwd p)"
  unfolding abspath_list_def by (simp add: normpath_comps_not_Nil)

lemma os_path_join_not_Nil: "b \<noteq> [] \<Longrightarrow> os_path_join a b \<noteq> []"
  by (simp add: os_path_join_def)

lemma foldl_os_path_join_not_Nil:
  "r \<noteq> [] \<Longrightarrow> [] \<notin> set rs \<Longrightarrow> foldl os_path_join r rs \<noteq> []"
proof (induction rs arbitrary: r)
  case Nil
  then show ?case by simp
next
  case (Cons x xs)
  then have "os_path_join r x \<noteq> []" by (intro os_path_join_not_Nil) auto
  then show ?case using Cons by simp
qed

lemma os_path_relpath_not_Nil:
  assumes "os_path_relpath cwd path start = Inr rel"
  shows "rel \<noteq> []"
proof -
  let ?sl = "abspath_list cwd start" and ?pl = "abspath_list cwd path"
  let ?i = "length (commonprefix ?sl ?pl)"
  let ?rel_list = "replicate (length ?sl - ?i) ''..'' @ drop ?i ?pl"
  have "[] \<notin> set (drop ?i ?pl)"
    using abspath_list_not_Nil [of cwd path] by (auto dest: in_set_dropD)
  then have ne: "[] \<notin> set ?rel_list"
    by auto
  show ?thesis
  proof (cases ?rel_list)
    case Nil
    then show ?thesis
      using assms by (auto simp: os_path_relpath_def Let_def split: if_splits)
  next
    case (Cons r rs)
    then have "r \<noteq> []" "[] \<notin> set rs"
      using ne by auto
    then have "foldl os_path_join r rs \<noteq> []"
      by (rule foldl_os_path_join_not_Nil)
    then show ?thesis
      using assms Cons by (auto simp: os_path_relpath_def Let_def split: if_splits)
  qed
qed

text \<open>
  C9. The derivation raises IndexError exactly on the empty string: on every non-empty
  string it returns a name, so a caller that passes a non-empty relative path never
  reaches the error branch. Both callers pass a result of \<^verbatim>\<open>os.path.relpath\<close>, which
  is never empty.
\<close>

theorem sanitize_var_name_error_iff_empty:
  "sanitize_var_name [] = Inl IndexError \<and>
   (name \<noteq> [] \<longrightarrow> (\<exists>v. sanitize_var_name name = Inr v)) \<and>
   (sanitize_var_name name = Inl IndexError \<longleftrightarrow> name = []) \<and>
   (os_path_relpath cwd path start = Inr rel_path \<longrightarrow>
      (\<exists>v. sanitize_var_name rel_path = Inr v))"
proof -
  have ne: "n \<noteq> [] \<Longrightarrow> sanitize_var_name n = Inr (spec_symbolic_name n)" for n
    by (rule sanitize_var_name_eq_spec)
  have e: "sanitize_var_name [] = Inl IndexError"
    by (simp add: sanitize_var_name_def re_sub_non_alnum_def)
  have "os_path_relpath cwd path start = Inr rel_path \<Longrightarrow> \<exists>v. sanitize_var_name rel_path = Inr v"
    using ne [of rel_path] os_path_relpath_not_Nil [of cwd path start rel_path] by blast
  moreover have "name \<noteq> [] \<longrightarrow> (\<exists>v. sanitize_var_name name = Inr v)"
    using ne [of name] by blast
  moreover have "sanitize_var_name name = Inl IndexError \<longleftrightarrow> name = []"
    using ne [of name] e by (cases "name = []") auto
  ultimately show ?thesis
    using e by blast
qed

theorem sanitize_var_name_error_iff_empty_witness:
  "''a.b.css'' \<noteq> [] \<and> sanitize_var_name ''a.b.css'' = Inr ''a_b_css'' \<and>
   sanitize_var_name [] = Inl IndexError \<and>
   os_path_relpath example_cwd ''web/css/a.css'' ''web'' = Inr ''css/a.css'' \<and>
   (\<exists>v. sanitize_var_name ''css/a.css'' = Inr v)"
proof -
  have s: "sanitize_var_name ''a.b.css'' = Inr ''a_b_css''"
    by code_simp
  have r: "os_path_relpath example_cwd ''web/css/a.css'' ''web'' = Inr ''css/a.css''"
    by code_simp
  show ?thesis
    using sanitize_var_name_error_iff_empty
      [of "''a.b.css''" example_cwd "''web/css/a.css''" "''web''" "''css/a.css''"] s r
    by simp
qed

section \<open>The walk of a valid tree\<close>

lemma bind_error_Inr [simp]: "bind_error (Inr x) f = f x"
  by (simp add: bind_error_def)

lemma bind_error_Inl [simp]: "bind_error (Inl e) f = Inl e"
  by (simp add: bind_error_def)

lemma walked_files_Nil [simp]: "walked_files [] = []"
  by (simp add: walked_files_def)

lemma walked_files_Cons:
  "walked_files ((root, ds, files) # ts) =
     map (Pair root) (filter (\<lambda>file. \<not> startswith file ''.'') files) @ walked_files ts"
  by (simp add: walked_files_def)

lemma walked_files_append: "walked_files (a @ b) = walked_files a @ walked_files b"
  by (simp add: walked_files_def)

lemma walked_files_concat: "walked_files (concat xss) = concat (map walked_files xss)"
  by (induction xss) (simp_all add: walked_files_append)

lemma walk_subdirs_concat:
  "walk_subdirs top_path es =
     concat (map (\<lambda>e. case e of
                         Dir n sub \<Rightarrow> walk (os_path_join top_path n) sub
                       | File _ _ \<Rightarrow> []) es)"
proof (induction es)
  case Nil
  show ?case by simp
next
  case (Cons e es)
  then show ?case by (cases e) simp_all
qed

lemma valid_entries_iff:
  "valid_entries es \<longleftrightarrow> (\<forall>e\<in>set es. valid_entry e) \<and> distinct (map entry_name es)"
  by (induction es) auto

lemma find_entry_distinct:
  "distinct (map entry_name es) \<Longrightarrow> e \<in> set es \<Longrightarrow> find_entry es (entry_name e) = Some e"
  by (induction es) (auto simp: find_entry_def)

lemma find_entry_Some: "find_entry es n = Some e \<Longrightarrow> e \<in> set es \<and> entry_name e = n"
  by (auto simp: find_entry_def find_Some_iff)

lemma here_files_walked:
  "map (Pair top_path) (filter (\<lambda>file. \<not> startswith file ''.'') (file_names es)) =
   map (\<lambda>(comps, c). (top_path, last comps)) (here_files pre es)"
  by (induction pre es rule: here_files.induct) simp_all


lemma here_files_mem:
  "(comps, c) \<in> set (here_files pre es) \<longleftrightarrow>
     (\<exists>n. comps = pre @ [n] \<and> File n c \<in> set es \<and> \<not> startswith n ''.'')"
  by (induction pre es rule: here_files.induct) auto

lemma visible_files_mem:
  "(comps, c) \<in> set (visible_files pre es) \<longleftrightarrow>
     (comps, c) \<in> set (here_files pre es) \<or>
     (\<exists>n sub. Dir n sub \<in> set es \<and> (comps, c) \<in> set (visible_files (pre @ [n]) sub))"
proof -
  have "(\<exists>e\<in>set es. (comps, c) \<in> set (case e of Dir n sub \<Rightarrow> visible_files (pre @ [n]) sub | File _ _ \<Rightarrow> [])) \<longleftrightarrow>
        (\<exists>n sub. Dir n sub \<in> set es \<and> (comps, c) \<in> set (visible_files (pre @ [n]) sub))"
    by (auto split: entry.splits)
  then show ?thesis
    by (subst visible_files.simps) auto
qed


lemma resolve_file_Cons:
  "rs \<noteq> [] \<Longrightarrow>
   resolve_file es (n # rs) =
     (case find_entry es n of Some (Dir _ sub) \<Rightarrow> resolve_file sub rs | _ \<Rightarrow> None)"
  by (cases rs) (auto split: option.splits entry.splits)

lemma visible_files_sound:
  "valid_entries es \<Longrightarrow> (comps, c) \<in> set (visible_files pre es) \<Longrightarrow>
   \<exists>rest. comps = pre @ rest \<and> rest \<noteq> [] \<and> list_all valid_name rest \<and>
          resolve_file es rest = Some c \<and> \<not> startswith (last rest) ''.''"
proof (induction pre es arbitrary: comps rule: visible_files.induct)
  case (1 pre es)
  have v: "\<forall>e\<in>set es. valid_entry e" and d: "distinct (map entry_name es)"
    using "1.prems"(1) by (simp_all add: valid_entries_iff)
  from "1.prems"(2) consider
      (here) n where "comps = pre @ [n]" "File n c \<in> set es" "\<not> startswith n ''.''"
    | (sub) n sub where "Dir n sub \<in> set es" "(comps, c) \<in> set (visible_files (pre @ [n]) sub)"
    by (subst (asm) visible_files_mem) (auto simp: here_files_mem)
  then show ?case
  proof cases
    case here
    have "find_entry es n = Some (File n c)"
      using find_entry_distinct [OF d here(2)] by simp
    then have "resolve_file es [n] = Some c" by simp
    moreover have "valid_name n" using v here(2) by fastforce
    ultimately show ?thesis using here by auto
  next
    case sub
    have vs: "valid_name n" "valid_entries sub" using v sub(1) by fastforce+
    obtain rest where rest: "comps = (pre @ [n]) @ rest" "rest \<noteq> []" "list_all valid_name rest"
        "resolve_file sub rest = Some c" "\<not> startswith (last rest) ''.''"
      using "1.IH" [OF sub(1) refl vs(2) sub(2)] by blast
    have "find_entry es n = Some (Dir n sub)"
      using find_entry_distinct [OF d sub(1)] by simp
    then have "resolve_file es (n # rest) = Some c"
      using rest by (simp add: resolve_file_Cons)
    then show ?thesis
      using rest vs(1) by (intro exI [of _ "n # rest"]) simp
  qed
qed

lemma visible_files_complete:
  "resolve_file es rest = Some c \<Longrightarrow> \<not> startswith (last rest) ''.'' \<Longrightarrow>
   (pre @ rest, c) \<in> set (visible_files pre es)"
proof (induction es rest arbitrary: pre rule: resolve_file.induct)
  case (1 es)
  then show ?case by simp
next
  case (2 es n)
  then obtain e where e: "find_entry es n = Some e"
    by (cases "find_entry es n") simp_all
  then have "e = File n c"
    using 2 find_entry_Some [OF e] by (cases e) auto
  then have "File n c \<in> set es" using find_entry_Some [OF e] by simp
  then have "(pre @ [n], c) \<in> set (here_files pre es)"
    using 2 by (auto simp: here_files_mem)
  then show ?case by (subst visible_files_mem) simp
next
  case (3 es n m ms)
  then obtain e where e: "find_entry es n = Some e"
    by (cases "find_entry es n") simp_all
  then obtain sub where s: "e = Dir n sub"
    using 3 find_entry_Some [OF e] by (cases e) auto
  have r: "resolve_file sub (m # ms) = Some c"
    using "3.prems" e s by simp
  have l: "\<not> startswith (last (m # ms)) ''.''"
    using "3.prems"(2) by simp
  have "((pre @ [n]) @ m # ms, c) \<in> set (visible_files (pre @ [n]) sub)"
    by (rule "3.IH" [OF e s r l])
  moreover have "Dir n sub \<in> set es" using find_entry_Some [OF e] s by simp
  ultimately show ?case by (subst visible_files_mem) auto
qed

lemma walked_files_walk:
  "list_all valid_name pre \<Longrightarrow> valid_entries es \<Longrightarrow>
   walked_files (walk (slash_join (''web'' # pre)) es) =
     map (\<lambda>(comps, c). (slash_join (''web'' # butlast comps), last comps)) (visible_files pre es)"
proof (induction pre es rule: visible_files.induct)
  case (1 pre es)
  let ?top = "slash_join (''web'' # pre)"
  let ?g = "\<lambda>(comps, c :: byte list). (slash_join (''web'' # butlast comps), last comps)"
  have v: "\<forall>e\<in>set es. valid_entry e"
    using "1.prems"(2) by (simp add: valid_entries_iff)
  have here: "map (Pair ?top) (filter (\<lambda>file. \<not> startswith file ''.'') (file_names es)) =
              map ?g (here_files pre es)"
    unfolding here_files_walked [of ?top es pre]
    by (rule map_cong) (auto simp: here_files_mem)
  have sub: "walked_files (case e of Dir n sub \<Rightarrow> walk (os_path_join ?top n) sub | File _ _ \<Rightarrow> []) =
             map ?g (case e of Dir n sub \<Rightarrow> visible_files (pre @ [n]) sub | File _ _ \<Rightarrow> [])"
    if "e \<in> set es" for e
  proof (cases e)
    case (File n c)
    then show ?thesis by simp
  next
    case (Dir n sub)
    have vs: "valid_name n" "valid_entries sub" using v that Dir by fastforce+
    have "os_path_join ?top n = slash_join ((''web'' # pre) @ [n])"
      using "1.prems"(1) vs(1) valid_name_web by (intro os_path_join_slash_join) simp_all
    then show ?thesis
      using "1.IH" [OF that Dir] "1.prems"(1) vs Dir by simp
  qed
  have "walked_files (walk_subdirs ?top es) =
        concat (map (\<lambda>e. map ?g (case e of Dir n sub \<Rightarrow> visible_files (pre @ [n]) sub
                                           | File _ _ \<Rightarrow> [])) es)"
    unfolding walk_subdirs_concat walked_files_concat map_map comp_def
    by (rule arg_cong [where f = concat], rule map_cong) (simp_all add: sub)
  then show ?case
    using here
    by (subst visible_files.simps) (simp add: walked_files_Cons map_concat comp_def)
qed

section \<open>The run as a function of the asset directory\<close>

lemma path_names_web: "path_names ''web'' = [''web'']"
  by (simp add: path_names_def)

lemma walked_files_os_walk:
  "walked_files (os_walk fs ''web'') = walked_files (walk ''web'' (web_entries fs))"
proof (cases "find_entry fs ''web''")
  case None
  then show ?thesis
    by (simp add: os_walk_def path_names_web web_entries_def walked_files_Cons)
next
  case (Some e)
  then show ?thesis
    by (cases e) (simp_all add: os_walk_def path_names_web web_entries_def walked_files_Cons)
qed

lemma traverse_map_map:
  "(\<And>x. x \<in> set xs \<Longrightarrow> f (g x) = Inr (h x)) \<Longrightarrow> traverse f (map g xs) = Inr (map h xs)"
  by (induction xs) simp_all

lemma visible_files_root:
  assumes "valid_entries es" "(comps, c) \<in> set (visible_files [] es)"
  shows "comps \<noteq> []" "list_all valid_name comps" "resolve_file es comps = Some c"
    "\<not> startswith (last comps) ''.''"
  using visible_files_sound [OF assms] by auto

lemma web_file_asset:
  assumes "list_all valid_name cwd" "list_all valid_name comps" "comps \<noteq> []"
  shows "web_file cwd (slash_join (''web'' # butlast comps), last comps) =
           Inr (slash_join (''web'' # comps), slash_join comps)"
proof -
  have "valid_name (last comps)"
    using assms(2,3) by (simp add: list_all_iff)
  moreover have "list_all valid_name (''web'' # butlast comps)"
    using assms(2) valid_name_web by (auto simp: list_all_iff dest: in_set_butlastD)
  ultimately have "os_path_join (slash_join (''web'' # butlast comps)) (last comps) =
        slash_join ((''web'' # butlast comps) @ [last comps])"
    by (intro os_path_join_slash_join) simp_all
  then have "os_path_join (slash_join (''web'' # butlast comps)) (last comps) =
        slash_join (''web'' # comps)"
    using assms(3) by simp
  then show ?thesis
    using os_path_relpath_web [OF assms] by (simp add: web_file_def)
qed

lemma collect_web_files_visible:
  assumes "list_all valid_name cwd" "valid_entries (web_entries fs)"
  shows "collect_web_files cwd fs =
           Inr (map (\<lambda>(comps, c). (slash_join (''web'' # comps), slash_join comps))
                  (visible_files [] (web_entries fs)))"
proof -
  have "walked_files (os_walk fs ''web'') =
        map (\<lambda>(comps, c). (slash_join (''web'' # butlast comps), last comps))
          (visible_files [] (web_entries fs))"
    using walked_files_walk [of "[]", OF _ assms(2)] by (simp add: walked_files_os_walk)
  moreover have "traverse (web_file cwd)
      (map (\<lambda>(comps, c). (slash_join (''web'' # butlast comps), last comps))
          (visible_files [] (web_entries fs))) =
      Inr (map (\<lambda>(comps, c). (slash_join (''web'' # comps), slash_join comps))
                  (visible_files [] (web_entries fs)))"
  proof (rule traverse_map_map)
    fix x assume x: "x \<in> set (visible_files [] (web_entries fs))"
    obtain comps c where xc: "x = (comps, c)" by (cases x)
    show "web_file cwd (case x of (comps, c) \<Rightarrow> (slash_join (''web'' # butlast comps), last comps)) =
          Inr (case x of (comps, c) \<Rightarrow> (slash_join (''web'' # comps), slash_join comps))"
      using web_file_asset [OF assms(1)] visible_files_root [OF assms(2)] x xc by simp
  qed
  ultimately show ?thesis
    by (simp add: collect_web_files_def)
qed

lemma path_names_slash_join:
  "list_all valid_name cs \<Longrightarrow> cs \<noteq> [] \<Longrightarrow> path_names (slash_join cs) = cs"
proof -
  assume a: "list_all valid_name cs" "cs \<noteq> []"
  have "filter (\<lambda>x. x \<noteq> [] \<and> x \<noteq> ''.'') cs = cs"
    using a(1) by (auto simp: list_all_iff valid_name_def intro!: filter_True)
  then show ?thesis
    using a by (simp add: path_names_def split_slash_join)
qed

lemma resolve_file_Nil: "resolve_file [] comps = None"
proof (cases comps)
  case Nil
  then show ?thesis by simp
next
  case (Cons n ns)
  then show ?thesis by (cases ns) (simp_all add: find_entry_def)
qed

lemma resolve_file_web:
  assumes "resolve_file (web_entries fs) comps = Some c" "comps \<noteq> []"
  shows "resolve_file fs (''web'' # comps) = Some c"
proof -
  have "web_entries fs \<noteq> []"
    using assms(1) by (auto simp: resolve_file_Nil)
  then obtain n where "find_entry fs ''web'' = Some (Dir n (web_entries fs))"
    by (auto simp: web_entries_def split: option.splits entry.splits)
  then show ?thesis
    using assms by (simp add: resolve_file_Cons)
qed

lemma read_binary_asset:
  assumes "valid_entries (web_entries fs)" "(comps, c) \<in> set (visible_files [] (web_entries fs))"
  shows "read_binary fs (slash_join (''web'' # comps)) = Inr c"
proof -
  note v = visible_files_root [OF assms]
  have "path_names (slash_join (''web'' # comps)) = ''web'' # comps"
    using v valid_name_web by (intro path_names_slash_join) simp_all
  moreover have "resolve_file fs (''web'' # comps) = Some c"
    using v by (intro resolve_file_web)
  ultimately show ?thesis
    by (simp add: read_binary_def)
qed

lemma sanitize_slash_join:
  assumes "list_all valid_name comps" "comps \<noteq> []"
  shows "sanitize_var_name (slash_join comps) = Inr (spec_symbolic_name (slash_join comps))"
  using slash_join_not_Nil [OF assms] by (rule sanitize_var_name_eq_spec)

lemma bundle_web_files_main_bundle:
  assumes "list_all valid_name cwd" "valid_entries (web_entries fs)"
  shows "bundle_web_files_main cwd fs = Inr (bundle_items (visible_files [] (web_entries fs)))"
proof -
  let ?assets = "visible_files [] (web_entries fs)"
  let ?h = "\<lambda>(comps, c :: byte list). (slash_join (''web'' # comps), slash_join comps)"
  note root = visible_files_root [OF assms(2)]
  have blocks: "traverse (asset_block fs) (map ?h ?assets) = Inr (map asset_items ?assets)"
  proof (rule traverse_map_map)
    fix x assume x: "x \<in> set ?assets"
    obtain comps c where xc: "x = (comps, c)" by (cases x)
    show "asset_block fs (?h x) = Inr (asset_items x)"
      using sanitize_slash_join [OF root(2,1)] read_binary_asset [OF assms(2)] x xc
      by (simp add: asset_block_def asset_items_def Let_def)
  qed
  have files: "traverse files_entry (map ?h ?assets) =
      Inr (map (\<lambda>(comps, _). MapInsert ''files'' (StrLit (slash_join comps))
            (AddrOf (spec_symbolic_name (slash_join comps)))) ?assets)"
  proof (rule traverse_map_map)
    fix x assume x: "x \<in> set ?assets"
    obtain comps c where xc: "x = (comps, c)" by (cases x)
    show "files_entry (?h x) = Inr (case x of (comps, _) \<Rightarrow>
            MapInsert ''files'' (StrLit (slash_join comps)) (AddrOf (spec_symbolic_name (slash_join comps))))"
      using sanitize_slash_join [OF root(2,1)] x xc by (simp add: files_entry_def)
  qed
  have paths: "traverse paths_entry (map ?h ?assets) =
      Inr (map (\<lambda>(comps, _). MapInsert ''paths'' (StrLit (slash_join comps))
            (Ident (spec_symbolic_name (slash_join comps) @ ''_path''))) ?assets)"
  proof (rule traverse_map_map)
    fix x assume x: "x \<in> set ?assets"
    obtain comps c where xc: "x = (comps, c)" by (cases x)
    show "paths_entry (?h x) = Inr (case x of (comps, _) \<Rightarrow>
            MapInsert ''paths'' (StrLit (slash_join comps)) (Ident (spec_symbolic_name (slash_join comps) @ ''_path'')))"
      using sanitize_slash_join [OF root(2,1)] x xc by (simp add: paths_entry_def)
  qed
  have mimes: "traverse mime_types_entry (map ?h ?assets) =
      Inr (map (\<lambda>(comps, _). MapInsert ''mime_types'' (StrLit (slash_join comps))
            (Ident (spec_symbolic_name (slash_join comps) @ ''_mime''))) ?assets)"
  proof (rule traverse_map_map)
    fix x assume x: "x \<in> set ?assets"
    obtain comps c where xc: "x = (comps, c)" by (cases x)
    show "mime_types_entry (?h x) = Inr (case x of (comps, _) \<Rightarrow>
            MapInsert ''mime_types'' (StrLit (slash_join comps)) (Ident (spec_symbolic_name (slash_join comps) @ ''_mime'')))"
      using sanitize_slash_join [OF root(2,1)] x xc by (simp add: mime_types_entry_def)
  qed
  show ?thesis
    unfolding bundle_web_files_main_def collect_web_files_visible [OF assms]
      bind_error_Inr blocks files paths mimes bundle_items_def ..
qed

section \<open>The run of web_bundler.py on a valid tree\<close>

lemma in_set_map_map: "x \<in> set xs \<Longrightarrow> f (g x) \<in> set (map f (map g xs))"
  by simp

lemma process_file_asset:
  assumes "list_all valid_name cwd" "valid_entries (web_entries fs)"
    and "(comps, c) \<in> set (visible_files [] (web_entries fs))"
  shows "\<exists>header.
           process_file cwd fs od ns (slash_join (''web'' # comps)) =
             Inr ((os_path_join od (spec_symbolic_name (slash_join comps) @ ''.hpp''), header),
                  (slash_join comps, spec_symbolic_name (slash_join comps))) \<and>
           ByteArray (spec_symbolic_name (slash_join comps)) c \<in> set header \<and>
           StringConst (spec_symbolic_name (slash_join comps) @ ''_path'') (slash_join comps)
             \<in> set header"
proof -
  note root = visible_files_root [OF assms(2,3)]
  have r: "read_binary fs (slash_join (''web'' # comps)) = Inr c"
    using assms(2,3) by (rule read_binary_asset)
  have p: "os_path_relpath cwd (slash_join (''web'' # comps)) ''web'' = Inr (slash_join comps)"
    using assms(1) root(2,1) by (rule os_path_relpath_web)
  have s: "sanitize_var_name (slash_join comps) = Inr (spec_symbolic_name (slash_join comps))"
    using root(2,1) by (rule sanitize_slash_join)
  show ?thesis
    unfolding process_file_def r p s bind_error_Inr Let_def by simp
qed

lemma web_bundler_web_files:
  assumes "valid_entries (web_entries fs)"
  shows "map (\<lambda>(root, file). os_path_join root file) (walked_files (os_walk fs ''web'')) =
         map (\<lambda>(comps, c). slash_join (''web'' # comps)) (visible_files [] (web_entries fs))"
proof -
  have w: "walked_files (os_walk fs ''web'') =
        map (\<lambda>(comps, c). (slash_join (''web'' # butlast comps), last comps))
          (visible_files [] (web_entries fs))"
    using walked_files_walk [of "[]", OF _ assms] by (simp add: walked_files_os_walk)
  have "os_path_join (slash_join (''web'' # butlast comps)) (last comps) = slash_join (''web'' # comps)"
    if "(comps, c) \<in> set (visible_files [] (web_entries fs))" for comps c
  proof -
    note root = visible_files_root [OF assms that]
    have "valid_name (last comps)"
      using root(1,2) by (simp add: list_all_iff)
    moreover have "list_all valid_name (''web'' # butlast comps)"
      using root(2) valid_name_web by (auto simp: list_all_iff dest: in_set_butlastD)
    ultimately have "os_path_join (slash_join (''web'' # butlast comps)) (last comps) =
          slash_join ((''web'' # butlast comps) @ [last comps])"
      by (intro os_path_join_slash_join) simp_all
    then show ?thesis using root(1) by simp
  qed
  then show ?thesis
    unfolding w by (auto simp: map_eq_conv)
qed

lemma web_bundler_main_writes:
  assumes "list_all valid_name cwd" "valid_entries (web_entries fs)"
  shows "\<exists>writes. web_bundler_main default_args cwd fs = Inr writes \<and>
           (\<forall>(comps, c)\<in>set (visible_files [] (web_entries fs)).
              \<exists>header.
                (os_path_join (output_dir default_args)
                   (spec_symbolic_name (slash_join comps) @ ''.hpp''), header) \<in> set writes \<and>
                ByteArray (spec_symbolic_name (slash_join comps)) c \<in> set header \<and>
                StringConst (spec_symbolic_name (slash_join comps) @ ''_path'') (slash_join comps)
                  \<in> set header)"
proof -
  let ?assets = "visible_files [] (web_entries fs)"
  let ?od = "output_dir default_args" and ?ns = "namespace default_args"
  let ?f = "process_file cwd fs ?od ?ns"
  let ?P = "\<lambda>(comps, c :: byte list). projr (?f (slash_join (''web'' # comps)))"
  have t: "traverse ?f (map (\<lambda>(comps, c). slash_join (''web'' # comps)) ?assets) =
           Inr (map ?P ?assets)"
  proof (rule traverse_map_map)
    fix x assume x: "x \<in> set ?assets"
    obtain comps c where xc: "x = (comps, c)" by (cases x)
    obtain header where "?f (slash_join (''web'' # comps)) =
        Inr ((os_path_join ?od (spec_symbolic_name (slash_join comps) @ ''.hpp''), header),
             (slash_join comps, spec_symbolic_name (slash_join comps)))"
      using process_file_asset [OF assms, of comps c ?od ?ns] x xc by blast
    then show "?f (case x of (comps, c) \<Rightarrow> slash_join (''web'' # comps)) = Inr (?P x)"
      using xc by simp
  qed
  have wd: "web_dir default_args = ''web''"
    by (simp add: default_args_def)
  let ?writes = "map fst (map ?P ?assets) @ [generate_index_file (map snd (map ?P ?assets)) ?od ?ns]"
  have m: "web_bundler_main default_args cwd fs = Inr ?writes"
    unfolding web_bundler_main_def wd web_bundler_web_files [OF assms(2)] Let_def t bind_error_Inr ..
  have "\<exists>header.
          (os_path_join ?od (spec_symbolic_name (slash_join comps) @ ''.hpp''), header) \<in> set ?writes \<and>
          ByteArray (spec_symbolic_name (slash_join comps)) c \<in> set header \<and>
          StringConst (spec_symbolic_name (slash_join comps) @ ''_path'') (slash_join comps) \<in> set header"
    if a: "(comps, c) \<in> set ?assets" for comps c
  proof -
    obtain header where h: "?f (slash_join (''web'' # comps)) =
        Inr ((os_path_join ?od (spec_symbolic_name (slash_join comps) @ ''.hpp''), header),
             (slash_join comps, spec_symbolic_name (slash_join comps)))"
        "ByteArray (spec_symbolic_name (slash_join comps)) c \<in> set header"
        "StringConst (spec_symbolic_name (slash_join comps) @ ''_path'') (slash_join comps) \<in> set header"
      using process_file_asset [OF assms a, of ?od ?ns] by blast
    have "fst (?P (comps, c)) =
          (os_path_join ?od (spec_symbolic_name (slash_join comps) @ ''.hpp''), header)"
      using h(1) by simp
    moreover have "fst (?P (comps, c)) \<in> set (map fst (map ?P ?assets))"
      using a by (rule in_set_map_map)
    ultimately have "(os_path_join ?od (spec_symbolic_name (slash_join comps) @ ''.hpp''), header)
                 \<in> set ?writes"
      by (simp del: map_map)
    then show ?thesis using h(2,3) by blast
  qed
  then show ?thesis using m by blast
qed

section \<open>Hidden files\<close>

lemma visible_files_set:
  assumes "valid_entries es"
  shows "set (visible_files [] es) =
           {(comps, c). resolve_file es comps = Some c \<and> \<not> startswith (last comps) ''.''}"
proof (intro set_eqI iffI)
  fix x assume x: "x \<in> set (visible_files [] es)"
  obtain comps c where xc: "x = (comps, c)" by (cases x)
  have "resolve_file es comps = Some c" "\<not> startswith (last comps) ''.''"
    using visible_files_root [OF assms, of comps c] x xc by blast+
  then show "x \<in> {(comps, c). resolve_file es comps = Some c \<and> \<not> startswith (last comps) ''.''}"
    using xc by simp
next
  fix x assume "x \<in> {(comps, c). resolve_file es comps = Some c \<and> \<not> startswith (last comps) ''.''}"
  then show "x \<in> set (visible_files [] es)"
    using visible_files_complete [where pre = "[]" and es = es] by (cases x) auto
qed

text \<open>
  C6, as the code has it. A file of the tree below \<^verbatim>\<open>web\<close> becomes an asset exactly when
  its own name does not start with a dot: every file whose own name starts with a dot is
  skipped, and no directory is, so a file with another name below a hidden directory is
  an asset.
\<close>

theorem hidden_files_skipped:
  assumes "list_all valid_name cwd" "valid_entries (web_entries fs)"
    and "collect_web_files cwd fs = Inr web_files"
  shows "set web_files =
           {(slash_join (''web'' # comps), slash_join comps) | comps c.
              resolve_file (web_entries fs) comps = Some c \<and> \<not> startswith (last comps) ''.''}"
proof -
  have "web_files = map (\<lambda>(comps, c). (slash_join (''web'' # comps), slash_join comps))
                      (visible_files [] (web_entries fs))"
    using collect_web_files_visible [OF assms(1,2)] assms(3) by simp
  then have "set web_files =
      (\<lambda>(comps, c). (slash_join (''web'' # comps), slash_join comps)) `
        {(comps, c). resolve_file (web_entries fs) comps = Some c \<and> \<not> startswith (last comps) ''.''}"
    by (simp add: visible_files_set [OF assms(2)])
  then show ?thesis by (auto simp: image_iff)
qed

theorem hidden_files_skipped_witness:
  "list_all valid_name example_cwd \<and> valid_entries (web_entries site_hidden) \<and>
   collect_web_files example_cwd site_hidden =
     Inr [(''web/index.html'', ''index.html''), (''web/.git/config'', ''.git/config'')] \<and>
   {(''web/index.html'', ''index.html''), (''web/.git/config'', ''.git/config'')} =
     {(slash_join (''web'' # comps), slash_join comps) | comps c.
        resolve_file (web_entries site_hidden) comps = Some c \<and> \<not> startswith (last comps) ''.''}"
proof -
  have a: "list_all valid_name example_cwd" by code_simp
  have b: "valid_entries (web_entries site_hidden)" by code_simp
  have c: "collect_web_files example_cwd site_hidden =
     Inr [(''web/index.html'', ''index.html''), (''web/.git/config'', ''.git/config'')]"
    by code_simp
  show ?thesis
    using hidden_files_skipped [OF a b c] a b c by simp
qed

text \<open>
  C6, as the specification states it, fails: the file \<^verbatim>\<open>config\<close> below the hidden
  directory \<^verbatim>\<open>.git\<close> is collected and bundled by both scripts; only \<^verbatim>\<open>.gitkeep\<close> is
  skipped.
\<close>

theorem hidden_directory_counterexample:
  "collect_web_files example_cwd site_hidden =
     Inr [(''web/index.html'', ''index.html''), (''web/.git/config'', ''.git/config'')] \<and>
   map_sum id get_bundled_files (bundle_web_files_main example_cwd site_hidden) =
     Inr (Some [(''index.html'', ''index_html''), (''.git/config'', ''_git_config'')]) \<and>
   map_sum id (map fst) (web_bundler_main default_args example_cwd site_hidden) =
     Inr [''include/dht_hunter/web/bundle/index_html.hpp'',
          ''include/dht_hunter/web/bundle/_git_config.hpp'',
          ''include/dht_hunter/web/bundle/web_bundle.hpp'']"
  by code_simp

section \<open>Determinism\<close>



section \<open>Colliding names\<close>

lemma asset_items_in_bundle:
  "a \<in> set assets \<Longrightarrow> set (asset_items a) \<subseteq> set (bundle_items assets)"
  by (auto simp: bundle_items_def)




section \<open>The two scripts compared\<close>

text \<open>
  The last literal of \<^verbatim>\<open>generate_index_file\<close> is not an f-string, so the index ends
  with doubled closing braces and the text \<^verbatim>\<open>{namespace}\<close>, where the header of
  bundle_web_files.py closes its two namespaces.
\<close>

lemma index_epilogue_end:
  "endswith index_epilogue
     (''}}  // namespace web_bundle\<newline>'' @ ''}}  // namespace {namespace}\<newline>'') \<and>
   endswith combined_epilogue
     (''} // namespace web_bundle\<newline>'' @ ''} // namespace dht_hunter\<newline>'')"
  by code_simp

text \<open>
  C1 at a directory \<^verbatim>\<open>web\<close> that holds the one file \<^verbatim>\<open>index.html\<close>. Both scripts
  declare the same identifiers with the same values, but the key of
  \<^verbatim>\<open>get_bundled_files\<close> is the relative path in the header of bundle_web_files.py and
  the text \<^verbatim>\<open>index_html_path\<close> in the index of web_bundler.py, which writes the name of
  the path variable between quotes.
\<close>

theorem get_bundled_files_keys_differ:
  "map_sum id (\<lambda>unit. (declarations unit [], get_bundled_files unit))
     (bundle_web_files_main example_cwd site_index) =
     Inr ([(''index_html'', Bytes [0x68, 0x69]),
           (''index_html_path'', Str ''index.html''),
           (''index_html_mime'', Str ''text/html'')],
          Some [(''index.html'', ''index_html'')]) \<and>
   map_sum id (\<lambda>w. (declarations (index_unit default_args w) [],
                     get_bundled_files (index_unit default_args w)))
     (web_bundler_main default_args example_cwd site_index) =
     Inr ([(''index_html'', Bytes [0x68, 0x69]),
           (''index_html_path'', Str ''index.html''),
           (''index_html_mime'', Str ''text/html'')],
          Some [(''index_html_path'', ''index_html'')])"
  by code_simp

text \<open>
  C7 at the same directory. In the header of bundle_web_files.py
  \<^verbatim>\<open>get_bundled_file("index.html")\<close> returns the pointer to the byte array; in the index
  of web_bundler.py it returns \<^verbatim>\<open>nullptr\<close>, although \<^verbatim>\<open>index.html\<close> is a stored
  relative path, and a pointer is returned for \<^verbatim>\<open>index_html_path\<close>, which is not.
  The MIME type lookups agree in both.
\<close>

theorem get_bundled_file_stored_path_null:
  "map_sum id (\<lambda>unit. (get_bundled_file unit ''index.html'',
                        get_bundled_file unit ''missing.txt'',
                        get_bundled_file_mime_type unit ''index.html'',
                        get_bundled_file_mime_type unit ''missing.txt''))
     (bundle_web_files_main example_cwd site_index) =
     Inr (Some (Some ''index_html''), Some None,
          Some ''text/html'', Some ''application/octet-stream'') \<and>
   map_sum id (\<lambda>w. (get_bundled_file (index_unit default_args w) ''index.html'',
                     get_bundled_file (index_unit default_args w) ''index_html_path'',
                     get_bundled_file_mime_type (index_unit default_args w) ''index.html'',
                     get_bundled_file_mime_type (index_unit default_args w) ''missing.txt''))
     (web_bundler_main default_args example_cwd site_index) =
     Inr (Some None, Some (Some ''index_html''),
          Some ''text/html'', Some ''application/octet-stream'')"
  by code_simp

end
